theory Spec2Isabelle
  imports Complex_Main "HOL-Library.Multiset"
begin

section \<open>JavaScript values\<close>

text \<open>
  The leaderboard backend (\<^verbatim>\<open>src/index.ts\<close>, the Cloudflare worker built on Hono and D1)
  receives a JSON body and reads three fields from it. A JavaScript number is a double:
  every finite double is a rational, and the code only compares numbers and asks whether
  they are integers, so the finite numbers are modelled as \<open>rat\<close> (a superset of the
  doubles) next to the three special values.
\<close>

datatype number = Finite rat | NaN | PosInfinity | NegInfinity

text \<open>\<^verbatim>\<open>a < b\<close> and \<^verbatim>\<open>a <= b\<close> on numbers: any comparison with NaN is false.\<close>

fun num_lt :: "number \<Rightarrow> number \<Rightarrow> bool" where
  "num_lt (Finite a) (Finite b) = (a < b)"
| "num_lt (Finite a) PosInfinity = True"
| "num_lt NegInfinity (Finite b) = True"
| "num_lt NegInfinity PosInfinity = True"
| "num_lt _ _ = False"

fun num_le :: "number \<Rightarrow> number \<Rightarrow> bool" where
  "num_le (Finite a) (Finite b) = (a \<le> b)"
| "num_le (Finite a) PosInfinity = True"
| "num_le NegInfinity (Finite b) = True"
| "num_le NegInfinity PosInfinity = True"
| "num_le NegInfinity NegInfinity = True"
| "num_le PosInfinity PosInfinity = True"
| "num_le _ _ = False"

text \<open>\<^verbatim>\<open>Number.isInteger\<close>: false for NaN and the infinities.\<close>

fun Number_isInteger :: "number \<Rightarrow> bool" where
  "Number_isInteger (Finite q) = (of_int \<lfloor>q\<rfloor> = q)"
| "Number_isInteger _ = False"

text \<open>
  The value bound to an INTEGER column. It is only applied to numbers that passed
  \<open>isValidScore\<close>, which are integers, so the floor is exact there.
\<close>

fun int_of_number :: "number \<Rightarrow> int" where
  "int_of_number (Finite q) = \<lfloor>q\<rfloor>"
| "int_of_number _ = 0"

text \<open>
  A field of the parsed JSON body. \<open>JObject\<close> stands for any object or array: the
  code only asks for its truthiness and its \<^verbatim>\<open>typeof\<close>.
\<close>

datatype jsval = JUndefined | JNull | JBoolean bool | JNumber number | JString string | JObject

fun truthy :: "jsval \<Rightarrow> bool" where
  "truthy JUndefined = False"
| "truthy JNull = False"
| "truthy (JBoolean b) = b"
| "truthy (JNumber n) = (n \<noteq> Finite 0 \<and> n \<noteq> NaN)"
| "truthy (JString s) = (s \<noteq> [])"
| "truthy JObject = True"

fun typeof :: "jsval \<Rightarrow> string" where
  "typeof JUndefined = ''undefined''"
| "typeof JNull = ''object''"
| "typeof (JBoolean b) = ''boolean''"
| "typeof (JNumber n) = ''number''"
| "typeof (JString s) = ''string''"
| "typeof JObject = ''object''"

section \<open>Strings\<close>

text \<open>
  A \<open>char\<close> is read as a UTF-16 code unit below 256 (ASCII and Latin-1), so a
  \<open>string\<close> is a JavaScript string over these code units. Code units from 256 on are
  outside the model.
\<close>

text \<open>
  \<^verbatim>\<open>String.prototype.trim\<close> removes white space and line terminators at both ends. Below 256
  these are TAB, LF, VT, FF, CR, SPACE and NO-BREAK SPACE.
\<close>

definition isWhiteSpace :: "char \<Rightarrow> bool" where
  "isWhiteSpace c = ((of_char c :: nat) \<in> {9, 10, 11, 12, 13, 32, 160})"

definition trim :: "string \<Rightarrow> string" where
  "trim s = rev (dropWhile isWhiteSpace (rev (dropWhile isWhiteSpace s)))"

text \<open>
  \<^verbatim>\<open>String.prototype.toLowerCase\<close>: below 256 the upper-case letters are A-Z, U+00C0-U+00D6
  and U+00D8-U+00DE, each 32 below its lower-case letter.
\<close>

definition isUpperCase :: "char \<Rightarrow> bool" where
  "isUpperCase c = (let n = (of_char c :: nat) in
     (65 \<le> n \<and> n \<le> 90) \<or> (192 \<le> n \<and> n \<le> 214) \<or> (216 \<le> n \<and> n \<le> 222))"

definition toLowerChar :: "char \<Rightarrow> char" where
  "toLowerChar c = (if isUpperCase c then char_of ((of_char c :: nat) + 32) else c)"

definition toLowerCase :: "string \<Rightarrow> string" where
  "toLowerCase s = map toLowerChar s"

section \<open>Validation\<close>

text \<open>The character class \<^verbatim>\<open>[a-zA-Z0-9_]\<close>.\<close>

definition isWordChar :: "char \<Rightarrow> bool" where
  "isWordChar c = (let n = (of_char c :: nat) in
     (97 \<le> n \<and> n \<le> 122) \<or> (65 \<le> n \<and> n \<le> 90) \<or> (48 \<le> n \<and> n \<le> 57) \<or> n = 95)"

text \<open>
  The matcher for \<^verbatim>\<open>[a-zA-Z0-9_]{lo,hi}$\<close> started at the current position: it consumes
  characters of the class one at a time, at most \<open>hi\<close> of them, and \<^verbatim>\<open>$\<close> (without the
  multiline flag) accepts only at the end of the input, after at least \<open>lo\<close> characters.
\<close>

fun matchRepeat :: "nat \<Rightarrow> nat \<Rightarrow> string \<Rightarrow> bool" where
  "matchRepeat lo hi [] = (lo = 0)"
| "matchRepeat lo hi (c # cs) = (0 < hi \<and> isWordChar c \<and> matchRepeat (lo - 1) (hi - 1) cs)"

text \<open>
  \<^verbatim>\<open>function isValidName(name) { const regex = /^[a-zA-Z0-9_]{3,16}$/; return regex.test(name); }\<close>
  The anchor \<^verbatim>\<open>^\<close> starts the match at the first character.
\<close>

definition isValidName :: "string \<Rightarrow> bool" where
  "isValidName name = matchRepeat 3 16 name"

text \<open>
  \<^verbatim>\<open>const MAX_SCORE = 3600; return score > 0 && score <= MAX_SCORE && Number.isInteger(score);\<close>
\<close>

definition MAX_SCORE :: number where
  "MAX_SCORE = Finite 3600"

definition isValidScore :: "number \<Rightarrow> bool" where
  "isValidScore score = (num_lt (Finite 0) score \<and> num_le score MAX_SCORE \<and> Number_isInteger score)"

text \<open>
  The older Bun server kept at the root of the repository (\<^verbatim>\<open>index.ts\<close>) has the same
  function without the upper bound, under the comment "Just check if it's a positive integer":
  \<^verbatim>\<open>return score > 0 && Number.isInteger(score);\<close>
\<close>

definition isValidScore_bun :: "number \<Rightarrow> bool" where
  "isValidScore_bun score = (num_lt (Finite 0) score \<and> Number_isInteger score)"

section \<open>The database\<close>

text \<open>
  The two tables of \<^verbatim>\<open>schema.sql\<close>, each a list of rows in storage (rowid) order. The
  \<^verbatim>\<open>id\<close> column is never read and is left out. \<^verbatim>\<open>name\<close> is declared UNIQUE in both
  tables; the code inserts a row only after a SELECT on that name found none. The INTEGER
  columns hold timestamps in milliseconds, counts and scores: integers, on which the
  arithmetic of doubles is exact.
\<close>

record LeaderboardEntry =
  name :: string
  score :: int
  timestamp :: int

text \<open>
  A row of \<^verbatim>\<open>player_activity\<close>. The SELECT of \<open>checkRateLimit\<close> renames the columns to
  the fields of the \<^verbatim>\<open>PlayerActivity\<close> interface (\<^verbatim>\<open>last_submission as lastSubmission\<close>, ...);
  the model reads the columns of the row.
\<close>

record PlayerActivity =
  pa_name :: string
  last_submission :: int
  submission_count :: int
  first_seen :: int
  session_id :: string

record database =
  leaderboard :: "LeaderboardEntry list"
  player_activity :: "PlayerActivity list"

definition empty_database :: database where
  "empty_database = \<lparr>leaderboard = [], player_activity = []\<rparr>"

section \<open>Anticheat functions\<close>

text \<open>
  The texts sent to the client:
  \<^item> \<open>InvalidName\<close>: "Nome non valido! Usa 3-16 caratteri (lettere, numeri, _)"
  \<^item> \<open>InvalidScore\<close>: "Punteggio non valido o sospetto"
  \<^item> \<open>CooldownActive\<close>: "Aspetta almeno 30 secondi tra i tentativi"
  \<^item> \<open>DailyQuotaExceeded\<close>: "Troppi tentativi oggi. Riprova domani."
  \<^item> \<open>MustExceedRecord n\<close>: "Devi superare il tuo record di n punti"
  \<^item> \<open>RateLimitExceeded\<close>: "Rate limit exceeded" (the fallback of \<^verbatim>\<open>reason || ...\<close>)
  \<^item> \<open>ScoreProgressionInvalid\<close>: "Score progression invalid" (the other fallback)
  \<^item> \<open>ScoreSaved\<close>: "Punteggio salvato!"
\<close>

datatype message =
    InvalidName | InvalidScore | CooldownActive | DailyQuotaExceeded | MustExceedRecord int
  | RateLimitExceeded | ScoreProgressionInvalid | ScoreSaved

datatype rate_limit_check = RateLimitCheck (allowed: bool) (rate_reason: "message option")

datatype progression_check = ProgressionCheck (valid: bool) (progression_reason: "message option")

text \<open>
  \<^verbatim>\<open>sessionId || generateSessionId()\<close>: a missing or empty hint is falsy. The generated token
  (\<^verbatim>\<open>Math.random\<close> and \<^verbatim>\<open>Date.now\<close> in base 36) is an input of the model.
\<close>

definition sessionId_or :: "string option \<Rightarrow> string \<Rightarrow> string" where
  "sessionId_or sessionId generated =
     (case sessionId of None \<Rightarrow> generated | Some s \<Rightarrow> if s = [] then generated else s)"

text \<open>
  The row of \<^verbatim>\<open>INSERT INTO player_activity (name, last_submission, submission_count,
  first_seen, session_id)\<close> with the values \<^verbatim>\<open>(playerKey, now, 1, now, sessionId || generateSessionId())\<close>.
\<close>

definition new_activity :: "int \<Rightarrow> string \<Rightarrow> string \<Rightarrow> string option \<Rightarrow> PlayerActivity" where
  "new_activity now generated playerKey sessionId =
     \<lparr>pa_name = playerKey, last_submission = now, submission_count = 1, first_seen = now,
      session_id = sessionId_or sessionId generated\<rparr>"

text \<open>
  \<^verbatim>\<open>UPDATE player_activity SET last_submission = ?, submission_count = submission_count + 1
  WHERE name = ?\<close> on one row.
\<close>

definition touch_activity :: "int \<Rightarrow> string \<Rightarrow> PlayerActivity \<Rightarrow> PlayerActivity" where
  "touch_activity now playerKey r =
     (if pa_name r = playerKey
      then r\<lparr>last_submission := now, submission_count := submission_count r + 1\<rparr>
      else r)"

text \<open>
  \<open>checkRateLimit\<close>: \<open>now\<close> is the value of \<^verbatim>\<open>Date.now()\<close> read at its start. The
  SELECT takes the first row of the name, the INSERT appends a row, the UPDATE goes over
  every row.
\<close>

definition checkRateLimit ::
  "int \<Rightarrow> string \<Rightarrow> database \<Rightarrow> string \<Rightarrow> string option \<Rightarrow> rate_limit_check \<times> database" where
  "checkRateLimit now generated db playerName sessionId =
     (let playerKey = toLowerCase playerName;
          activity = find (\<lambda>a. pa_name a = playerKey) (player_activity db)
      in case activity of
           None \<Rightarrow>
             (RateLimitCheck True None,
              db\<lparr>player_activity :=
                  player_activity db @ [new_activity now generated playerKey sessionId]\<rparr>)
         | Some a \<Rightarrow>
             if now - last_submission a < 30000
             then (RateLimitCheck False (Some CooldownActive), db)
             else
               let daysSinceFirst = (of_int (now - first_seen a) :: rat) / (1000 * 60 * 60 * 24)
               in if daysSinceFirst < 1 \<and> submission_count a \<ge> 50
                  then (RateLimitCheck False (Some DailyQuotaExceeded), db)
                  else (RateLimitCheck True None,
                        db\<lparr>player_activity :=
                            map (touch_activity now playerKey) (player_activity db)\<rparr>))"

definition validateScoreProgression :: "database \<Rightarrow> string \<Rightarrow> number \<Rightarrow> progression_check" where
  "validateScoreProgression db playerName newScore =
     (let playerKey = toLowerCase playerName;
          existingEntry = find (\<lambda>e. name e = playerKey) (leaderboard db)
      in case existingEntry of
           Some e \<Rightarrow>
             if num_le newScore (Finite (of_int (score e)))
             then ProgressionCheck False (Some (MustExceedRecord (score e)))
             else ProgressionCheck True None
         | None \<Rightarrow> ProgressionCheck True None)"

section \<open>The routes\<close>

datatype response = Response (status: nat) (success: bool) (msg: message)

text \<open>
  What a request reads from outside the database: the two readings of \<^verbatim>\<open>Date.now()\<close>
  (in \<open>checkRateLimit\<close>, then in the handler) and the token \<^verbatim>\<open>generateSessionId()\<close>
  would return.
\<close>

record effects =
  rateLimitNow :: int
  submitTimestamp :: int
  generatedSessionId :: string

text \<open>
  The operands of \<^verbatim>\<open>||\<close> after the \<^verbatim>\<open>typeof\<close> test are only evaluated on a string,
  respectively a number.
\<close>

fun the_string :: "jsval \<Rightarrow> string" where
  "the_string (JString s) = s"
| "the_string _ = []"

fun the_number :: "jsval \<Rightarrow> number" where
  "the_number (JNumber n) = n"
| "the_number _ = NaN"

text \<open>
  \<^verbatim>\<open>UPDATE leaderboard SET score = ?, timestamp = ? WHERE name = ?\<close> on one row.
\<close>

definition set_score :: "string \<Rightarrow> int \<Rightarrow> int \<Rightarrow> LeaderboardEntry \<Rightarrow> LeaderboardEntry" where
  "set_score playerKey s ts e = (if name e = playerKey then e\<lparr>score := s, timestamp := ts\<rparr> else e)"

text \<open>
  The end of the submit handler: SELECT the entry of the name, then UPDATE it or INSERT a
  new one.
\<close>

definition upsertScore :: "database \<Rightarrow> string \<Rightarrow> number \<Rightarrow> int \<Rightarrow> database" where
  "upsertScore db playerName newScore ts =
     (let existingEntry = find (\<lambda>e. name e = toLowerCase playerName) (leaderboard db)
      in case existingEntry of
           Some _ \<Rightarrow>
             db\<lparr>leaderboard :=
                 map (set_score (toLowerCase playerName) (int_of_number newScore) ts)
                   (leaderboard db)\<rparr>
         | None \<Rightarrow>
             db\<lparr>leaderboard := leaderboard db @
                 [\<lparr>name = toLowerCase playerName, score = int_of_number newScore,
                   timestamp = ts\<rparr>]\<rparr>)"

text \<open>\<^verbatim>\<open>POST /api/submit-score\<close> with the body fields \<^verbatim>\<open>name\<close>, \<^verbatim>\<open>score\<close>, \<^verbatim>\<open>sessionId\<close>.\<close>

definition submitScore ::
  "effects \<Rightarrow> database \<Rightarrow> jsval \<Rightarrow> jsval \<Rightarrow> string option \<Rightarrow> response \<times> database" where
  "submitScore fx db nameV scoreV sessionId =
     (if \<not> truthy nameV \<or> typeof nameV \<noteq> ''string'' \<or> \<not> isValidName (trim (the_string nameV))
      then (Response 400 False InvalidName, db)
      else if \<not> truthy scoreV \<or> typeof scoreV \<noteq> ''number'' \<or> \<not> isValidScore (the_number scoreV)
      then (Response 400 False InvalidScore, db)
      else
        let playerName = trim (the_string nameV);
            (rateLimitCheck, db1) =
              checkRateLimit (rateLimitNow fx) (generatedSessionId fx) db playerName sessionId
        in if \<not> allowed rateLimitCheck
           then (Response 429 False
                   (case rate_reason rateLimitCheck of Some m \<Rightarrow> m | None \<Rightarrow> RateLimitExceeded),
                 db1)
           else
             let progressionCheck = validateScoreProgression db1 playerName (the_number scoreV)
             in if \<not> valid progressionCheck
                then (Response 400 False
                        (case progression_reason progressionCheck of
                           Some m \<Rightarrow> m | None \<Rightarrow> ScoreProgressionInvalid),
                      db1)
                else (Response 200 True ScoreSaved,
                      upsertScore db1 playerName (the_number scoreV) (submitTimestamp fx)))"

text \<open>
  \<^verbatim>\<open>ORDER BY score DESC\<close>: SQL leaves the order of rows with equal scores open; the model
  keeps them in storage order (a stable sort).
\<close>

definition orderByScoreDesc :: "LeaderboardEntry list \<Rightarrow> LeaderboardEntry list" where
  "orderByScoreDesc rows = sort_key (\<lambda>e. - score e) rows"

text \<open>\<^verbatim>\<open>GET /api/leaderboard\<close>: \<^verbatim>\<open>ORDER BY score DESC LIMIT 10\<close>.\<close>

definition getLeaderboard :: "database \<Rightarrow> LeaderboardEntry list" where
  "getLeaderboard db = take 10 (orderByScoreDesc (leaderboard db))"

text \<open>
  The inner SELECT of the rank query: every row with its \<^verbatim>\<open>ROW_NUMBER() OVER (ORDER BY score DESC)\<close>
  and \<^verbatim>\<open>COUNT(*) OVER()\<close>.
\<close>

record RankRow =
  row_name :: string
  row_rank :: nat
  total_players :: nat

fun numberRows :: "nat \<Rightarrow> nat \<Rightarrow> LeaderboardEntry list \<Rightarrow> RankRow list" where
  "numberRows i n [] = []"
| "numberRows i n (e # es) =
     \<lparr>row_name = name e, row_rank = i, total_players = n\<rparr> # numberRows (Suc i) n es"

definition rankedRows :: "database \<Rightarrow> RankRow list" where
  "rankedRows db = numberRows 1 (length (leaderboard db)) (orderByScoreDesc (leaderboard db))"

text \<open>
  \<^verbatim>\<open>GET /api/rank/:name\<close>:
  \<^verbatim>\<open>rank: rankResult ? rankResult.rank : null, totalPlayers: rankResult ? rankResult.total_players : 0\<close>
\<close>

record RankResponse =
  rank :: "nat option"
  totalPlayers :: nat

definition getRank :: "database \<Rightarrow> string \<Rightarrow> RankResponse" where
  "getRank db nameP =
     (let playerKey = toLowerCase nameP;
          rankResult = find (\<lambda>r. row_name r = playerKey) (rankedRows db)
      in \<lparr>rank = (case rankResult of Some r \<Rightarrow> Some (row_rank r) | None \<Rightarrow> None),
          totalPlayers = (case rankResult of Some r \<Rightarrow> total_players r | None \<Rightarrow> 0)\<rparr>)"

section \<open>The rate limiter of the older Bun server\<close>

text \<open>
  The older Bun server kept at the root of the repository (\<^verbatim>\<open>index.ts\<close>) has its own
  \<open>checkRateLimit\<close>. Its SELECT names the columns without aliases,
  \<^verbatim>\<open>SELECT last_submission, submission_count, first_seen, session_id FROM player_activity\<close>,
  and the row is an object with one property per column, named as the column is. The code
  then reads \<^verbatim>\<open>activity.lastSubmission\<close>, \<^verbatim>\<open>activity.firstSeen\<close> and
  \<^verbatim>\<open>activity.submissionCount\<close>.
\<close>

definition bun_row :: "PlayerActivity \<Rightarrow> (string \<times> jsval) list" where
  "bun_row a =
     [(''last_submission'', JNumber (Finite (of_int (last_submission a)))),
      (''submission_count'', JNumber (Finite (of_int (submission_count a)))),
      (''first_seen'', JNumber (Finite (of_int (first_seen a)))),
      (''session_id'', JString (session_id a))]"

text \<open>Reading a property: \<^verbatim>\<open>undefined\<close> when the object has no such key.\<close>

definition property :: "(string \<times> jsval) list \<Rightarrow> string \<Rightarrow> jsval" where
  "property obj k = (case map_of obj k of Some v \<Rightarrow> v | None \<Rightarrow> JUndefined)"

text \<open>
  The operand of an arithmetic operator or a comparison with a number, converted to a
  number: \<^verbatim>\<open>undefined\<close> becomes NaN, \<^verbatim>\<open>null\<close> 0, a boolean 0 or 1. A string or an object
  would be parsed; the rate limiter has no such operand (it does not read the session id),
  and they are given NaN here.
\<close>

fun to_number :: "jsval \<Rightarrow> number" where
  "to_number JUndefined = NaN"
| "to_number JNull = Finite 0"
| "to_number (JBoolean b) = Finite (if b then 1 else 0)"
| "to_number (JNumber n) = n"
| "to_number (JString s) = NaN"
| "to_number JObject = NaN"

text \<open>\<^verbatim>\<open>a - b\<close> on numbers. On integers below \<open>2 ^ 53\<close> the finite case is exact.\<close>

fun num_sub :: "number \<Rightarrow> number \<Rightarrow> number" where
  "num_sub (Finite a) (Finite b) = Finite (a - b)"
| "num_sub NaN _ = NaN"
| "num_sub _ NaN = NaN"
| "num_sub PosInfinity PosInfinity = NaN"
| "num_sub NegInfinity NegInfinity = NaN"
| "num_sub PosInfinity _ = PosInfinity"
| "num_sub NegInfinity _ = NegInfinity"
| "num_sub (Finite a) PosInfinity = NegInfinity"
| "num_sub (Finite a) NegInfinity = PosInfinity"

text \<open>\<^verbatim>\<open>a / d\<close> for a finite \<open>d > 0\<close>, here the constant \<^verbatim>\<open>1000 * 60 * 60 * 24\<close>.\<close>

fun num_div_by :: "number \<Rightarrow> rat \<Rightarrow> number" where
  "num_div_by (Finite a) d = Finite (a / d)"
| "num_div_by NaN d = NaN"
| "num_div_by PosInfinity d = PosInfinity"
| "num_div_by NegInfinity d = NegInfinity"

text \<open>
  \<open>checkRateLimit\<close> of the Bun server, statement by statement as the worker's, but on the
  row object above.
\<close>

definition checkRateLimit_bun ::
  "int \<Rightarrow> string \<Rightarrow> database \<Rightarrow> string \<Rightarrow> string option \<Rightarrow> rate_limit_check \<times> database" where
  "checkRateLimit_bun now generated db playerName sessionId =
     (let playerKey = toLowerCase playerName;
          activity = map_option bun_row (find (\<lambda>a. pa_name a = playerKey) (player_activity db))
      in case activity of
           None \<Rightarrow>
             (RateLimitCheck True None,
              db\<lparr>player_activity :=
                  player_activity db @ [new_activity now generated playerKey sessionId]\<rparr>)
         | Some activity \<Rightarrow>
             if num_lt (num_sub (Finite (of_int now)) (to_number (property activity ''lastSubmission'')))
                  (Finite 30000)
             then (RateLimitCheck False (Some CooldownActive), db)
             else
               let daysSinceFirst =
                     num_div_by
                       (num_sub (Finite (of_int now)) (to_number (property activity ''firstSeen'')))
                       (1000 * 60 * 60 * 24)
               in if num_lt daysSinceFirst (Finite 1) \<and>
                     num_le (Finite 50) (to_number (property activity ''submissionCount''))
                  then (RateLimitCheck False (Some DailyQuotaExceeded), db)
                  else (RateLimitCheck True None,
                        db\<lparr>player_activity :=
                            map (touch_activity now playerKey) (player_activity db)\<rparr>))"

section \<open>The session id as the request sends it\<close>

text \<open>
  The handler casts the body to \<^verbatim>\<open>{ name: string; score: number; sessionId?: string }\<close> and
  tests the type of \<^verbatim>\<open>name\<close> and \<^verbatim>\<open>score\<close>, not of \<^verbatim>\<open>sessionId\<close>: whatever JSON value
  the field has reaches \<open>checkRateLimit\<close>, where a missing row makes
  \<^verbatim>\<open>.bind(playerKey, now, 1, now, sessionId || generateSessionId())\<close> receive it when it is truthy.

  \<^verbatim>\<open>bind\<close> belongs to the D1 client, not to this repository. It takes a string as it is and
  throws \<^verbatim>\<open>D1_TYPE_ERROR\<close> on \<^verbatim>\<open>undefined\<close> and on an object or array (an array of bytes,
  which it stores as a blob, is not among the values modelled: for the session id
  \<open>JObject\<close> stands for the objects \<^verbatim>\<open>bind\<close> refuses). \<^verbatim>\<open>null\<close> is bound and then
  refused by the NOT NULL column. What the TEXT column makes of a number or a boolean is
  left to the parameter \<open>scalar\<close>: the text stored, or an error. The thrown error leaves
  the handler as an exception (HTTP 500) before any statement has run.
\<close>

datatype d1_error = D1_TYPE_ERROR | D1_CONSTRAINT

fun d1_bind_text :: "(jsval \<Rightarrow> d1_error + string) \<Rightarrow> jsval \<Rightarrow> d1_error + string" where
  "d1_bind_text scalar (JString s) = Inr s"
| "d1_bind_text scalar (JNumber n) = scalar (JNumber n)"
| "d1_bind_text scalar (JBoolean b) = scalar (JBoolean b)"
| "d1_bind_text scalar JNull = Inl D1_CONSTRAINT"
| "d1_bind_text scalar JUndefined = Inl D1_TYPE_ERROR"
| "d1_bind_text scalar JObject = Inl D1_TYPE_ERROR"

text \<open>\<open>checkRateLimit\<close> of the worker, on the session id as the request sends it.\<close>

definition checkRateLimitJson ::
  "(jsval \<Rightarrow> d1_error + string) \<Rightarrow> int \<Rightarrow> string \<Rightarrow> database \<Rightarrow> string \<Rightarrow> jsval \<Rightarrow>
   d1_error + rate_limit_check \<times> database" where
  "checkRateLimitJson scalar now generated db playerName sessionIdV =
     (let playerKey = toLowerCase playerName;
          activity = find (\<lambda>a. pa_name a = playerKey) (player_activity db)
      in case activity of
           None \<Rightarrow>
             (case d1_bind_text scalar
                     (if truthy sessionIdV then sessionIdV else JString generated) of
                Inl e \<Rightarrow> Inl e
              | Inr stored \<Rightarrow>
                  Inr (RateLimitCheck True None,
                       db\<lparr>player_activity := player_activity db @
                           [\<lparr>pa_name = playerKey, last_submission = now, submission_count = 1,
                             first_seen = now, session_id = stored\<rparr>]\<rparr>))
         | Some a \<Rightarrow>
             if now - last_submission a < 30000
             then Inr (RateLimitCheck False (Some CooldownActive), db)
             else
               let daysSinceFirst = (of_int (now - first_seen a) :: rat) / (1000 * 60 * 60 * 24)
               in if daysSinceFirst < 1 \<and> submission_count a \<ge> 50
                  then Inr (RateLimitCheck False (Some DailyQuotaExceeded), db)
                  else Inr (RateLimitCheck True None,
                            db\<lparr>player_activity :=
                                map (touch_activity now playerKey) (player_activity db)\<rparr>))"

text \<open>
  \<^verbatim>\<open>POST /api/submit-score\<close> on the three body fields as the request sends them. \<open>Inl\<close>
  is the exception; the store is then the one before the request.
\<close>

definition submitScoreJson ::
  "(jsval \<Rightarrow> d1_error + string) \<Rightarrow> effects \<Rightarrow> database \<Rightarrow> jsval \<Rightarrow> jsval \<Rightarrow> jsval \<Rightarrow>
   d1_error + response \<times> database" where
  "submitScoreJson scalar fx db nameV scoreV sessionIdV =
     (if \<not> truthy nameV \<or> typeof nameV \<noteq> ''string'' \<or> \<not> isValidName (trim (the_string nameV))
      then Inr (Response 400 False InvalidName, db)
      else if \<not> truthy scoreV \<or> typeof scoreV \<noteq> ''number'' \<or> \<not> isValidScore (the_number scoreV)
      then Inr (Response 400 False InvalidScore, db)
      else
        let playerName = trim (the_string nameV)
        in case checkRateLimitJson scalar (rateLimitNow fx) (generatedSessionId fx) db playerName
                  sessionIdV of
             Inl e \<Rightarrow> Inl e
           | Inr (rateLimitCheck, db1) \<Rightarrow>
               if \<not> allowed rateLimitCheck
               then Inr (Response 429 False
                       (case rate_reason rateLimitCheck of
                          Some m \<Rightarrow> m | None \<Rightarrow> RateLimitExceeded),
                     db1)
               else
                 let progressionCheck =
                       validateScoreProgression db1 playerName (the_number scoreV)
                 in if \<not> valid progressionCheck
                    then Inr (Response 400 False
                            (case progression_reason progressionCheck of
                               Some m \<Rightarrow> m | None \<Rightarrow> ScoreProgressionInvalid),
                          db1)
                    else Inr (Response 200 True ScoreSaved,
                              upsertScore db1 playerName (the_number scoreV)
                                (submitTimestamp fx)))"


section \<open>Reachable stores\<close>

text \<open>
  The only route that writes is the submit handler, so the stores the service can be in are
  those reached from the empty tables by submissions, one after the other.
\<close>

inductive reachable :: "database \<Rightarrow> bool" where
  reachable_empty: "reachable empty_database"
| reachable_submit:
    "reachable db \<Longrightarrow> reachable (snd (submitScore fx db nameV scoreV sessionId))"

section \<open>Example stores\<close>

text \<open>A first submission of the score 10 by "abc" on the empty store, at time 1000.\<close>

definition effects_first :: effects where
  "effects_first = \<lparr>rateLimitNow = 1000, submitTimestamp = 1001, generatedSessionId = ''k3j9x''\<rparr>"

definition store_abc :: database where
  "store_abc =
     snd (submitScore effects_first empty_database (JString ''abc'') (JNumber (Finite 10)) None)"

text \<open>A later submission, 39 seconds after the first.\<close>

definition effects_second :: effects where
  "effects_second = \<lparr>rateLimitNow = 40000, submitTimestamp = 40001, generatedSessionId = ''q7w1z''\<rparr>"

text \<open>A store where "abc", first seen at time 1000, has used 50 submissions.\<close>

definition store_busy :: database where
  "store_busy =
     \<lparr>leaderboard = [\<lparr>name = ''abc'', score = 10, timestamp = 1001\<rparr>],
      player_activity = [\<lparr>pa_name = ''abc'', last_submission = 3000000, submission_count = 50,
         first_seen = 1000, session_id = ''k3j9x''\<rparr>]\<rparr>"

text \<open>Fifteen players, two of them with the same score.\<close>

definition store_fifteen :: database where
  "store_fifteen =
     \<lparr>leaderboard =
        [\<lparr>name = ''p01'', score = 30, timestamp = 1\<rparr>, \<lparr>name = ''p02'', score = 150, timestamp = 2\<rparr>,
         \<lparr>name = ''p03'', score = 70, timestamp = 3\<rparr>, \<lparr>name = ''p04'', score = 10, timestamp = 4\<rparr>,
         \<lparr>name = ''p05'', score = 90, timestamp = 5\<rparr>, \<lparr>name = ''p06'', score = 70, timestamp = 6\<rparr>,
         \<lparr>name = ''p07'', score = 120, timestamp = 7\<rparr>, \<lparr>name = ''p08'', score = 50, timestamp = 8\<rparr>,
         \<lparr>name = ''p09'', score = 20, timestamp = 9\<rparr>, \<lparr>name = ''p10'', score = 140, timestamp = 10\<rparr>,
         \<lparr>name = ''p11'', score = 60, timestamp = 11\<rparr>, \<lparr>name = ''p12'', score = 80, timestamp = 12\<rparr>,
         \<lparr>name = ''p13'', score = 40, timestamp = 13\<rparr>, \<lparr>name = ''p14'', score = 110, timestamp = 14\<rparr>,
         \<lparr>name = ''p15'', score = 100, timestamp = 15\<rparr>],
      player_activity = []\<rparr>"


section \<open>Auxiliary notions\<close>

text \<open>The two validation gates of the submit handler, negated: the request goes on.\<close>

definition name_ok :: "jsval \<Rightarrow> bool" where
  "name_ok nameV =
     (\<not> (\<not> truthy nameV \<or> typeof nameV \<noteq> ''string'' \<or> \<not> isValidName (trim (the_string nameV))))"

definition score_ok :: "jsval \<Rightarrow> bool" where
  "score_ok scoreV =
     (\<not> (\<not> truthy scoreV \<or> typeof scoreV \<noteq> ''number'' \<or> \<not> isValidScore (the_number scoreV)))"

text \<open>A submit request with what it reads from outside, and a sequence of them.\<close>

record request =
  req_effects :: effects
  req_name :: jsval
  req_score :: jsval
  req_sessionId :: "string option"

definition submitRequest :: "database \<Rightarrow> request \<Rightarrow> response \<times> database" where
  "submitRequest db rq = submitScore (req_effects rq) db (req_name rq) (req_score rq) (req_sessionId rq)"

fun submitAll :: "database \<Rightarrow> request list \<Rightarrow> database" where
  "submitAll db [] = db"
| "submitAll db (rq # rqs) = submitAll (snd (submitRequest db rq)) rqs"

text \<open>An activity row without its session id.\<close>

definition activity_core :: "PlayerActivity \<Rightarrow> string \<times> int \<times> int \<times> int" where
  "activity_core a = (pa_name a, last_submission a, submission_count a, first_seen a)"

text \<open>The invariant of the leaderboard: one entry per name, every name lower-cased.\<close>

definition names_ok :: "database \<Rightarrow> bool" where
  "names_ok db \<longleftrightarrow> distinct (map name (leaderboard db)) \<and>
     (\<forall>e\<in>set (leaderboard db). toLowerCase (name e) = name e)"

section \<open>Properties of the validation unit\<close>

lemma matchRepeat_iff:
  "matchRepeat lo hi s \<longleftrightarrow> lo \<le> length s \<and> length s \<le> hi \<and> list_all isWordChar s"
proof (induction s arbitrary: lo hi)
  case Nil
  show ?case by simp
next
  case (Cons c cs)
  show ?case by (cases hi) (auto simp: Cons.IH)
qed

lemma isValidScore_Finite:
  "isValidScore (Finite q) \<longleftrightarrow> 0 < q \<and> q \<le> 3600 \<and> of_int \<lfloor>q\<rfloor> = q"
  by (simp add: isValidScore_def MAX_SCORE_def)

lemma isValidScore_special:
  "\<not> isValidScore NaN" "\<not> isValidScore PosInfinity" "\<not> isValidScore NegInfinity"
  by (simp_all add: isValidScore_def MAX_SCORE_def)

text \<open>
  Claim C2. For every number \<open>s\<close>, \<open>isValidScore s\<close> is true exactly when \<open>s\<close> is an
  integer with \<open>0 < s\<close> and \<open>s \<le> 3600\<close>; so it is false for NaN, the infinities,
  non-integers, \<open>s \<le> 0\<close> and \<open>s > 3600\<close>.
\<close>

theorem isValidScore_iff:
  "isValidScore s \<longleftrightarrow> (\<exists>n::int. s = Finite (of_int n) \<and> 0 < n \<and> n \<le> 3600)"
proof (cases s)
  case (Finite q)
  show ?thesis
  proof
    assume "isValidScore s"
    then have q: "0 < q" "q \<le> 3600" "of_int \<lfloor>q\<rfloor> = q"
      using Finite by (simp_all add: isValidScore_Finite)
    have pos: "0 < \<lfloor>q\<rfloor>" using q(1) q(3) by (metis of_int_0_less_iff)
    have le: "\<lfloor>q\<rfloor> \<le> 3600" using q(2) q(3) by (metis floor_numeral le_floor_iff)
    have "s = Finite (of_int \<lfloor>q\<rfloor>)" by (simp only: Finite q(3))
    then show "\<exists>n::int. s = Finite (of_int n) \<and> 0 < n \<and> n \<le> 3600"
      using pos le by blast
  next
    assume "\<exists>n::int. s = Finite (of_int n) \<and> 0 < n \<and> n \<le> 3600"
    then obtain n :: int where n: "s = Finite (of_int n)" "0 < n" "n \<le> 3600" by blast
    have "(of_int n :: rat) \<le> of_int 3600" using n(3) by (simp only: of_int_le_iff)
    then show "isValidScore s" using n by (simp add: isValidScore_Finite)
  qed
qed (simp_all add: isValidScore_special)

theorem isValidScore_iff_witness:
  "isValidScore (Finite 3600) \<and> \<not> isValidScore (Finite 3601) \<and> \<not> isValidScore (Finite 0)"
proof -
  have a: "isValidScore (Finite 3600)"
    using isValidScore_iff [of "Finite 3600"] by (auto intro: exI [of _ 3600])
  have b: "\<not> isValidScore (Finite 3601)"
    using isValidScore_iff [of "Finite 3601"] by auto
  have c: "\<not> isValidScore (Finite 0)"
    using isValidScore_iff [of "Finite 0"] by auto
  show ?thesis using a b c by simp
qed

text \<open>
  The function of the older Bun server accepts every score the worker accepts, and has no
  maximum.
\<close>

lemma isValidScore_bun_relaxed:
  "(isValidScore s \<longrightarrow> isValidScore_bun s) \<and>
   isValidScore_bun (Finite 3601) \<and> \<not> isValidScore (Finite 3601)"
proof -
  have "isValidScore_bun (Finite 3601)" by (simp add: isValidScore_bun_def)
  moreover have "\<not> isValidScore (Finite 3601)" by (simp add: isValidScore_Finite)
  ultimately show ?thesis by (simp add: isValidScore_def isValidScore_bun_def)
qed

section \<open>Rank lookup\<close>

lemma numberRows_names: "map row_name (numberRows i n es) = map name es"
  by (induction es arbitrary: i) simp_all

lemma numberRows_total: "r \<in> set (numberRows i n es) \<Longrightarrow> total_players r = n"
  by (induction es arbitrary: i) auto

lemma numberRows_rank:
  "r \<in> set (numberRows i n es) \<Longrightarrow> i \<le> row_rank r \<and> row_rank r < i + length es"
  by (induction es arbitrary: i) fastforce+

lemma set_orderByScoreDesc: "set (orderByScoreDesc rows) = set rows"
  by (simp add: orderByScoreDesc_def)

lemma length_orderByScoreDesc: "length (orderByScoreDesc rows) = length rows"
  by (simp add: orderByScoreDesc_def)

lemma rankedRows_names: "row_name ` set (rankedRows db) = name ` set (leaderboard db)"
proof -
  have "set (map row_name (rankedRows db)) = set (map name (orderByScoreDesc (leaderboard db)))"
    by (simp only: rankedRows_def numberRows_names)
  then show ?thesis by (simp add: set_orderByScoreDesc)
qed

lemma find_rankedRows_None:
  "find (\<lambda>r. row_name r = k) (rankedRows db) = None \<longleftrightarrow>
   find (\<lambda>e. name e = k) (leaderboard db) = None"
proof -
  have "(\<exists>r\<in>set (rankedRows db). row_name r = k) \<longleftrightarrow> k \<in> row_name ` set (rankedRows db)"
    by auto
  also have "\<dots> \<longleftrightarrow> k \<in> name ` set (leaderboard db)" by (simp only: rankedRows_names)
  also have "\<dots> \<longleftrightarrow> (\<exists>e\<in>set (leaderboard db). name e = k)" by auto
  finally show ?thesis unfolding find_None_iff by blast
qed

text \<open>
  Claim C1, as the code has it. A rank lookup for a name without an entry in the leaderboard
  answers \<open>rank = null\<close> and \<open>totalPlayers = 0\<close>: the query yields no row, and the
  handler falls back to 0. Only for a name with an entry is \<open>totalPlayers\<close> the number of
  entries (and the rank a position between 1 and that number).
\<close>

theorem getRank_cases:
  "(find (\<lambda>e. name e = toLowerCase nameP) (leaderboard db) = None \<longrightarrow>
      rank (getRank db nameP) = None \<and> totalPlayers (getRank db nameP) = 0) \<and>
   (find (\<lambda>e. name e = toLowerCase nameP) (leaderboard db) \<noteq> None \<longrightarrow>
      (\<exists>k. rank (getRank db nameP) = Some k \<and> 1 \<le> k \<and> k \<le> length (leaderboard db)) \<and>
      totalPlayers (getRank db nameP) = length (leaderboard db))"
proof (cases "find (\<lambda>r. row_name r = toLowerCase nameP) (rankedRows db)")
  case None
  then have "find (\<lambda>e. name e = toLowerCase nameP) (leaderboard db) = None"
    by (simp only: find_rankedRows_None)
  then show ?thesis using None by (simp add: getRank_def)
next
  case (Some r)
  then have mem: "r \<in> set (rankedRows db)" by (auto simp: find_Some_iff in_set_conv_nth)
  have present: "find (\<lambda>e. name e = toLowerCase nameP) (leaderboard db) \<noteq> None"
    using Some find_rankedRows_None [of "toLowerCase nameP" db] by simp
  have tot: "total_players r = length (leaderboard db)"
    using mem by (simp add: rankedRows_def numberRows_total)
  have rk: "1 \<le> row_rank r \<and> row_rank r \<le> length (leaderboard db)"
    using numberRows_rank [of r 1 "length (leaderboard db)" "orderByScoreDesc (leaderboard db)"] mem
    by (simp add: rankedRows_def length_orderByScoreDesc)
  show ?thesis using Some present tot rk by (simp add: getRank_def)
qed

theorem getRank_cases_witness:
  "find (\<lambda>e. name e = toLowerCase ''zzz'') (leaderboard store_abc) = None \<and>
   rank (getRank store_abc ''zzz'') = None \<and> totalPlayers (getRank store_abc ''zzz'') = 0 \<and>
   find (\<lambda>e. name e = toLowerCase ''ABC'') (leaderboard store_abc) \<noteq> None \<and>
   rank (getRank store_abc ''ABC'') = Some 1 \<and> totalPlayers (getRank store_abc ''ABC'') = 1"
proof -
  have a: "find (\<lambda>e. name e = toLowerCase ''zzz'') (leaderboard store_abc) = None" by code_simp
  have b: "find (\<lambda>e. name e = toLowerCase ''ABC'') (leaderboard store_abc) \<noteq> None" by code_simp
  have c: "length (leaderboard store_abc) = 1" by code_simp
  have d: "rank (getRank store_abc ''ABC'') = Some 1" by code_simp
  show ?thesis
    using getRank_cases [of "''zzz''" store_abc] getRank_cases [of "''ABC''" store_abc] a b c d
    by simp
qed

text \<open>
  Claim C1 as the specification states it fails: the store holds one entry, "zzz" has none,
  and the lookup reports 0 players, not 1.
\<close>

theorem getRank_counterexample:
  "find (\<lambda>e. name e = toLowerCase ''zzz'') (leaderboard store_abc) = None \<and>
   rank (getRank store_abc ''zzz'') = None \<and>
   totalPlayers (getRank store_abc ''zzz'') \<noteq> length (leaderboard store_abc)"
  by code_simp

section \<open>Case analysis of the anticheat functions\<close>

lemma isValidName_chars:
  "isValidName s \<longleftrightarrow> 3 \<le> length s \<and> length s \<le> 16 \<and> list_all isWordChar s"
  by (simp add: isValidName_def matchRepeat_iff)

lemma daysSinceFirst_less_1:
  "(of_int d :: rat) / (1000 * 60 * 60 * 24) < 1 \<longleftrightarrow> d < 86400000"
proof -
  have "(of_int d :: rat) / (1000 * 60 * 60 * 24) < 1 \<longleftrightarrow> (of_int d :: rat) < of_int 86400000"
    by simp
  also have "\<dots> \<longleftrightarrow> d < 86400000" by (simp only: of_int_less_iff)
  finally show ?thesis .
qed

lemma checkRateLimit_first:
  assumes "find (\<lambda>a. pa_name a = toLowerCase p) (player_activity db) = None"
  shows "checkRateLimit now g db p sid =
    (RateLimitCheck True None,
     db\<lparr>player_activity := player_activity db @ [new_activity now g (toLowerCase p) sid]\<rparr>)"
  using assms by (simp add: checkRateLimit_def)

lemma checkRateLimit_cooldown:
  assumes "find (\<lambda>a. pa_name a = toLowerCase p) (player_activity db) = Some a"
    and "now - last_submission a < 30000"
  shows "checkRateLimit now g db p sid = (RateLimitCheck False (Some CooldownActive), db)"
  using assms by (simp add: checkRateLimit_def)

lemma checkRateLimit_quota:
  assumes "find (\<lambda>a. pa_name a = toLowerCase p) (player_activity db) = Some a"
    and "\<not> now - last_submission a < 30000"
    and "now - first_seen a < 86400000" and "50 \<le> submission_count a"
  shows "checkRateLimit now g db p sid = (RateLimitCheck False (Some DailyQuotaExceeded), db)"
proof -
  have "(of_int (now - first_seen a) :: rat) / (1000 * 60 * 60 * 24) < 1"
    using assms(3) daysSinceFirst_less_1 [of "now - first_seen a"] by blast
  then show ?thesis using assms(1,2,4) by (simp add: checkRateLimit_def Let_def)
qed

lemma checkRateLimit_pass:
  assumes "find (\<lambda>a. pa_name a = toLowerCase p) (player_activity db) = Some a"
    and "\<not> now - last_submission a < 30000"
    and "\<not> (now - first_seen a < 86400000 \<and> 50 \<le> submission_count a)"
  shows "checkRateLimit now g db p sid =
    (RateLimitCheck True None,
     db\<lparr>player_activity := map (touch_activity now (toLowerCase p)) (player_activity db)\<rparr>)"
proof -
  have "\<not> ((of_int (now - first_seen a) :: rat) / (1000 * 60 * 60 * 24) < 1 \<and> 50 \<le> submission_count a)"
    using assms(3) daysSinceFirst_less_1 [of "now - first_seen a"] by blast
  then show ?thesis using assms(1,2) by (simp add: checkRateLimit_def Let_def)
qed

lemma checkRateLimit_cases:
  obtains
    (first) "find (\<lambda>a. pa_name a = toLowerCase p) (player_activity db) = None"
      "checkRateLimit now g db p sid =
        (RateLimitCheck True None,
         db\<lparr>player_activity := player_activity db @ [new_activity now g (toLowerCase p) sid]\<rparr>)"
  | (cooldown) a where "find (\<lambda>a. pa_name a = toLowerCase p) (player_activity db) = Some a"
      "now - last_submission a < 30000"
      "checkRateLimit now g db p sid = (RateLimitCheck False (Some CooldownActive), db)"
  | (quota) a where "find (\<lambda>a. pa_name a = toLowerCase p) (player_activity db) = Some a"
      "\<not> now - last_submission a < 30000" "now - first_seen a < 86400000" "50 \<le> submission_count a"
      "checkRateLimit now g db p sid = (RateLimitCheck False (Some DailyQuotaExceeded), db)"
  | (pass) a where "find (\<lambda>a. pa_name a = toLowerCase p) (player_activity db) = Some a"
      "\<not> now - last_submission a < 30000"
      "\<not> (now - first_seen a < 86400000 \<and> 50 \<le> submission_count a)"
      "checkRateLimit now g db p sid =
        (RateLimitCheck True None,
         db\<lparr>player_activity := map (touch_activity now (toLowerCase p)) (player_activity db)\<rparr>)"
proof (cases "find (\<lambda>a. pa_name a = toLowerCase p) (player_activity db)")
  case None
  then show ?thesis using first checkRateLimit_first by blast
next
  case (Some a)
  show ?thesis
  proof (cases "now - last_submission a < 30000")
    case True
    then show ?thesis using Some cooldown checkRateLimit_cooldown by blast
  next
    case False
    show ?thesis
    proof (cases "now - first_seen a < 86400000 \<and> 50 \<le> submission_count a")
      case True
      then show ?thesis using Some False quota [of a] checkRateLimit_quota [of p db a now g sid] by blast
    next
      case F2: False
      then show ?thesis using Some False pass [of a] checkRateLimit_pass [of p db a now g sid] by blast
    qed
  qed
qed

lemma validateScoreProgression_cases:
  obtains
    (none) "find (\<lambda>e. name e = toLowerCase p) (leaderboard db) = None"
      "validateScoreProgression db p s = ProgressionCheck True None"
  | (low) e where "find (\<lambda>e. name e = toLowerCase p) (leaderboard db) = Some e"
      "num_le s (Finite (of_int (score e)))"
      "validateScoreProgression db p s = ProgressionCheck False (Some (MustExceedRecord (score e)))"
  | (high) e where "find (\<lambda>e. name e = toLowerCase p) (leaderboard db) = Some e"
      "\<not> num_le s (Finite (of_int (score e)))"
      "validateScoreProgression db p s = ProgressionCheck True None"
proof (cases "find (\<lambda>e. name e = toLowerCase p) (leaderboard db)")
  case None
  then show ?thesis using none by (simp add: validateScoreProgression_def)
next
  case (Some e)
  then show ?thesis using low [of e] high [of e]
    by (cases "num_le s (Finite (of_int (score e)))") (simp_all add: validateScoreProgression_def)
qed

section \<open>Case analysis of the submit handler\<close>

lemma submitScore_cases:
  obtains
    (bad_name) "\<not> name_ok nameV"
      "submitScore fx db nameV scoreV sid = (Response 400 False InvalidName, db)"
  | (bad_score) "name_ok nameV" "\<not> score_ok scoreV"
      "submitScore fx db nameV scoreV sid = (Response 400 False InvalidScore, db)"
  | (limited) r db1 where "name_ok nameV" "score_ok scoreV"
      "checkRateLimit (rateLimitNow fx) (generatedSessionId fx) db (trim (the_string nameV)) sid = (r, db1)"
      "\<not> allowed r"
      "submitScore fx db nameV scoreV sid =
         (Response 429 False (case rate_reason r of Some m \<Rightarrow> m | None \<Rightarrow> RateLimitExceeded), db1)"
  | (no_progress) r db1 where "name_ok nameV" "score_ok scoreV"
      "checkRateLimit (rateLimitNow fx) (generatedSessionId fx) db (trim (the_string nameV)) sid = (r, db1)"
      "allowed r"
      "\<not> valid (validateScoreProgression db1 (trim (the_string nameV)) (the_number scoreV))"
      "submitScore fx db nameV scoreV sid =
         (Response 400 False
            (case progression_reason (validateScoreProgression db1 (trim (the_string nameV)) (the_number scoreV)) of
               Some m \<Rightarrow> m | None \<Rightarrow> ScoreProgressionInvalid), db1)"
  | (saved) r db1 where "name_ok nameV" "score_ok scoreV"
      "checkRateLimit (rateLimitNow fx) (generatedSessionId fx) db (trim (the_string nameV)) sid = (r, db1)"
      "allowed r"
      "valid (validateScoreProgression db1 (trim (the_string nameV)) (the_number scoreV))"
      "submitScore fx db nameV scoreV sid =
         (Response 200 True ScoreSaved,
          upsertScore db1 (trim (the_string nameV)) (the_number scoreV) (submitTimestamp fx))"
proof (cases "name_ok nameV")
  case False
  then show ?thesis using bad_name by (simp add: submitScore_def name_ok_def)
next
  case n: True
  show ?thesis
  proof (cases "score_ok scoreV")
    case False
    then show ?thesis using n bad_score by (simp add: submitScore_def name_ok_def score_ok_def)
  next
    case s: True
    obtain r db1 where c:
      "checkRateLimit (rateLimitNow fx) (generatedSessionId fx) db (trim (the_string nameV)) sid = (r, db1)"
      by (cases "checkRateLimit (rateLimitNow fx) (generatedSessionId fx) db (trim (the_string nameV)) sid")
    have unfold: "submitScore fx db nameV scoreV sid =
      (if \<not> allowed r
       then (Response 429 False (case rate_reason r of Some m \<Rightarrow> m | None \<Rightarrow> RateLimitExceeded), db1)
       else if \<not> valid (validateScoreProgression db1 (trim (the_string nameV)) (the_number scoreV))
       then (Response 400 False
            (case progression_reason (validateScoreProgression db1 (trim (the_string nameV)) (the_number scoreV)) of
               Some m \<Rightarrow> m | None \<Rightarrow> ScoreProgressionInvalid), db1)
       else (Response 200 True ScoreSaved,
          upsertScore db1 (trim (the_string nameV)) (the_number scoreV) (submitTimestamp fx)))"
      using n s c by (simp add: submitScore_def name_ok_def score_ok_def Let_def)
    show ?thesis
    proof (cases "allowed r")
      case False
      then show ?thesis using limited [OF n s c] unfold by simp
    next
      case a: True
      show ?thesis
      proof (cases "valid (validateScoreProgression db1 (trim (the_string nameV)) (the_number scoreV))")
        case False
        then show ?thesis using no_progress [OF n s c a] unfold a by simp
      next
        case True
        then show ?thesis using saved [OF n s c a] unfold a by simp
      qed
    qed
  qed
qed

section \<open>The name gate\<close>

lemma name_ok_JString: "name_ok (JString raw) \<longleftrightarrow> isValidName (trim raw)"
proof -
  have "\<not> isValidName (trim [])" by (simp add: trim_def isValidName_def)
  then show ?thesis by (cases raw) (auto simp: name_ok_def)
qed

lemma checkRateLimit_denied_reason:
  assumes "checkRateLimit now g db p sid = (r, db1)" and "\<not> allowed r"
  shows "rate_reason r = Some CooldownActive \<or> rate_reason r = Some DailyQuotaExceeded"
  using assms by (cases rule: checkRateLimit_cases [of p db now g sid]) auto

lemma validateScoreProgression_invalid_reason:
  assumes "\<not> valid (validateScoreProgression db p s)"
  shows "\<exists>n. progression_reason (validateScoreProgression db p s) = Some (MustExceedRecord n)"
  using assms by (cases rule: validateScoreProgression_cases [of p db s]) auto

lemma submitScore_InvalidName_iff:
  "msg (fst (submitScore fx db nameV scoreV sid)) = InvalidName \<longleftrightarrow> \<not> name_ok nameV"
proof (cases rule: submitScore_cases [of nameV fx db scoreV sid])
  case bad_name
  then show ?thesis by simp
next
  case bad_score
  then show ?thesis by simp
next
  case (limited r db1)
  then show ?thesis using checkRateLimit_denied_reason [OF limited(3,4)] by auto
next
  case (no_progress r db1)
  then show ?thesis using validateScoreProgression_invalid_reason [OF no_progress(5)] by auto
next
  case (saved r db1)
  then show ?thesis by simp
qed

text \<open>
  Claim C8, as the code has it. \<open>isValidName\<close> does not trim: it is true exactly when its
  argument itself is 3 to 16 characters of \<^verbatim>\<open>[A-Za-z0-9_]\<close>. The trimming is done by the submit
  handler, which calls \<open>isValidName\<close> on the trimmed name: a string name passes the name
  gate of a submission exactly when its trimmed form is such a full match.
\<close>

theorem isValidName_full_match:
  "(isValidName s \<longleftrightarrow> 3 \<le> length s \<and> length s \<le> 16 \<and> list_all isWordChar s) \<and>
   (msg (fst (submitScore fx db (JString raw) scoreV sid)) \<noteq> InvalidName \<longleftrightarrow>
      3 \<le> length (trim raw) \<and> length (trim raw) \<le> 16 \<and> list_all isWordChar (trim raw))"
  by (simp only: submitScore_InvalidName_iff name_ok_JString isValidName_chars simp_thms)

theorem isValidName_full_match_witness:
  "isValidName ''Mario_64'' \<and> \<not> isValidName ''ab'' \<and> \<not> isValidName ''a b c'' \<and>
   trim '' abc '' = ''abc'' \<and>
   msg (fst (submitScore effects_first empty_database (JString '' abc '') (JNumber (Finite 10)) None))
     \<noteq> InvalidName"
proof -
  have a: "3 \<le> length ''Mario_64'' \<and> length ''Mario_64'' \<le> 16 \<and> list_all isWordChar ''Mario_64''"
    by code_simp
  have b: "\<not> 3 \<le> length ''ab''" by simp
  have c: "\<not> list_all isWordChar ''a b c''" by code_simp
  have d: "trim '' abc '' = ''abc''" by code_simp
  have e: "list_all isWordChar ''abc''" by code_simp
  show ?thesis
    using isValidName_full_match [of "''Mario_64''" effects_first empty_database "'' abc ''" "JNumber (Finite 10)" None]
      isValidName_full_match [of "''ab''" effects_first empty_database "'' abc ''" "JNumber (Finite 10)" None]
      isValidName_full_match [of "''a b c''" effects_first empty_database "'' abc ''" "JNumber (Finite 10)" None]
      a b c d e by simp
qed

text \<open>
  Claim C8 as the specification states it fails on a name with surrounding blanks: the
  trimmed string matches, \<open>isValidName\<close> of the string is false.
\<close>

theorem isValidName_counterexample:
  "\<not> (isValidName '' abc '' \<longleftrightarrow>
        3 \<le> length (trim '' abc '') \<and> length (trim '' abc '') \<le> 16 \<and>
        list_all isWordChar (trim '' abc ''))"
  by code_simp

section \<open>Rate limiting\<close>

lemma find_append_last:
  "find P (xs @ [x]) = (case find P xs of Some y \<Rightarrow> Some y | None \<Rightarrow> if P x then Some x else None)"
  by (induction xs) simp_all

lemma pa_name_touch: "pa_name (touch_activity now k r) = pa_name r"
  by (simp add: touch_activity_def)

lemma find_map_touch:
  "find (\<lambda>r. pa_name r = k) (map (touch_activity now k') xs) =
   map_option (touch_activity now k') (find (\<lambda>r. pa_name r = k) xs)"
  by (induction xs) (simp_all add: pa_name_touch)

lemma filter_map_touch:
  "filter (\<lambda>r. pa_name r \<noteq> k) (map (touch_activity now k) xs) = filter (\<lambda>r. pa_name r \<noteq> k) xs"
  by (induction xs) (simp_all add: touch_activity_def)

text \<open>
  Claim C7. For a name without an activity row, \<open>checkRateLimit\<close> allows the request and
  appends a row for the name with \<open>first_seen = last_submission = now\<close>, a count of 1 and,
  as session id, the hint when it is a non-empty string and the generated token otherwise.
\<close>

theorem checkRateLimit_first_contact:
  assumes "find (\<lambda>a. pa_name a = toLowerCase playerName) (player_activity db) = None"
  shows "fst (checkRateLimit now generated db playerName sessionId) = RateLimitCheck True None \<and>
    (\<exists>a. find (\<lambda>a. pa_name a = toLowerCase playerName)
            (player_activity (snd (checkRateLimit now generated db playerName sessionId))) = Some a \<and>
         player_activity (snd (checkRateLimit now generated db playerName sessionId)) =
           player_activity db @ [a] \<and>
         first_seen a = now \<and> last_submission a = now \<and> submission_count a = 1 \<and>
         session_id a = (case sessionId of None \<Rightarrow> generated
                         | Some h \<Rightarrow> if h = [] then generated else h)) \<and>
    leaderboard (snd (checkRateLimit now generated db playerName sessionId)) = leaderboard db"
  using assms
  by (simp add: checkRateLimit_first find_append_last new_activity_def sessionId_or_def)

theorem checkRateLimit_first_contact_witness:
  "find (\<lambda>a. pa_name a = toLowerCase ''Abc'') (player_activity empty_database) = None \<and>
   checkRateLimit 1000 ''k3j9x'' empty_database ''Abc'' (Some ''s1'') =
     (RateLimitCheck True None,
      \<lparr>leaderboard = [], player_activity = [\<lparr>pa_name = ''abc'', last_submission = 1000,
         submission_count = 1, first_seen = 1000, session_id = ''s1''\<rparr>]\<rparr>)"
proof -
  have h: "find (\<lambda>a. pa_name a = toLowerCase ''Abc'') (player_activity empty_database) = None"
    by code_simp
  have v: "checkRateLimit 1000 ''k3j9x'' empty_database ''Abc'' (Some ''s1'') =
     (RateLimitCheck True None,
      \<lparr>leaderboard = [], player_activity = [\<lparr>pa_name = ''abc'', last_submission = 1000,
         submission_count = 1, first_seen = 1000, session_id = ''s1''\<rparr>]\<rparr>)"
    by code_simp
  show ?thesis
    using checkRateLimit_first_contact [OF h, of 1000 "''k3j9x''" "Some ''s1''"] h v by simp
qed

text \<open>
  The worker, for a player with an activity row: \<open>checkRateLimit\<close> denies exactly when
  the cooldown is active (\<open>now - last_submission < 30000\<close>) or the daily quota is used up; a
  denial leaves the whole store as it was, so the next attempt is compared with the same
  \<open>last_submission\<close>. A call that allows sets \<open>last_submission\<close> of the row to \<open>now\<close>
  and adds exactly 1 to its \<open>submission_count\<close>; no other row and no score changes.
\<close>

theorem checkRateLimit_existing:
  assumes "find (\<lambda>a. pa_name a = toLowerCase playerName) (player_activity db) = Some a"
    and "checkRateLimit now generated db playerName sessionId = (r, db')"
  shows "(\<not> allowed r \<longleftrightarrow>
            now - last_submission a < 30000 \<or>
            (now - first_seen a < 86400000 \<and> 50 \<le> submission_count a)) \<and>
         (\<not> allowed r \<longrightarrow> db' = db) \<and>
         (allowed r \<longrightarrow>
            find (\<lambda>a. pa_name a = toLowerCase playerName) (player_activity db') =
              Some (a\<lparr>last_submission := now, submission_count := submission_count a + 1\<rparr>) \<and>
            filter (\<lambda>r. pa_name r \<noteq> toLowerCase playerName) (player_activity db') =
              filter (\<lambda>r. pa_name r \<noteq> toLowerCase playerName) (player_activity db) \<and>
            map pa_name (player_activity db') = map pa_name (player_activity db) \<and>
            leaderboard db' = leaderboard db)"
proof -
  have key: "pa_name a = toLowerCase playerName"
    using assms(1) by (auto simp: find_Some_iff)
  show ?thesis
  proof (cases rule: checkRateLimit_cases [of playerName db now generated sessionId])
    case first
    then show ?thesis using assms(1) by simp
  next
    case (cooldown b)
    then show ?thesis using assms by auto
  next
    case (quota b)
    then show ?thesis using assms by auto
  next
    case (pass b)
    have b: "b = a" using pass(1) assms(1) by simp
    have t: "touch_activity now (toLowerCase playerName) a =
        a\<lparr>last_submission := now, submission_count := submission_count a + 1\<rparr>"
      using key by (simp add: touch_activity_def)
    have n: "map pa_name (map (touch_activity now (toLowerCase playerName)) (player_activity db)) =
        map pa_name (player_activity db)"
      by (simp add: pa_name_touch)
    have r: "r = RateLimitCheck True None"
      and d: "db' = db\<lparr>player_activity := map (touch_activity now (toLowerCase playerName)) (player_activity db)\<rparr>"
      using pass(4) assms(2) by simp_all
    have f: "find (\<lambda>a. pa_name a = toLowerCase playerName) (player_activity db') =
        Some (a\<lparr>last_submission := now, submission_count := submission_count a + 1\<rparr>)"
      using assms(1) t by (simp add: d find_map_touch)
    have o: "filter (\<lambda>r. pa_name r \<noteq> toLowerCase playerName) (player_activity db') =
              filter (\<lambda>r. pa_name r \<noteq> toLowerCase playerName) (player_activity db)"
      by (simp add: d filter_map_touch)
    have m: "map pa_name (player_activity db') = map pa_name (player_activity db)"
      using n by (simp add: d)
    have l: "leaderboard db' = leaderboard db" by (simp add: d)
    show ?thesis using pass(2,3) b r f o m l by simp
  qed
qed

theorem checkRateLimit_existing_witness:
  "find (\<lambda>a. pa_name a = toLowerCase ''abc'') (player_activity store_abc) =
     Some \<lparr>pa_name = ''abc'', last_submission = 1000, submission_count = 1, first_seen = 1000,
           session_id = ''k3j9x''\<rparr> \<and>
   checkRateLimit 2000 ''g'' store_abc ''abc'' None =
     (RateLimitCheck False (Some CooldownActive), store_abc) \<and>
   checkRateLimit 31000 ''g'' store_abc ''abc'' None =
     (RateLimitCheck True None,
      store_abc\<lparr>player_activity := [\<lparr>pa_name = ''abc'', last_submission = 31000,
         submission_count = 2, first_seen = 1000, session_id = ''k3j9x''\<rparr>]\<rparr>) \<and>
   find (\<lambda>a. pa_name a = toLowerCase ''abc'')
     (player_activity (snd (checkRateLimit 31000 ''g'' store_abc ''abc'' None))) =
     Some \<lparr>pa_name = ''abc'', last_submission = 31000, submission_count = 2, first_seen = 1000,
           session_id = ''k3j9x''\<rparr>"
proof -
  have h: "find (\<lambda>a. pa_name a = toLowerCase ''abc'') (player_activity store_abc) =
     Some \<lparr>pa_name = ''abc'', last_submission = 1000, submission_count = 1, first_seen = 1000,
           session_id = ''k3j9x''\<rparr>"
    by code_simp
  have c1: "checkRateLimit 2000 ''g'' store_abc ''abc'' None =
     (RateLimitCheck False (Some CooldownActive), store_abc)"
    by code_simp
  have c2: "checkRateLimit 31000 ''g'' store_abc ''abc'' None =
     (RateLimitCheck True None,
      store_abc\<lparr>player_activity := [\<lparr>pa_name = ''abc'', last_submission = 31000,
         submission_count = 2, first_seen = 1000, session_id = ''k3j9x''\<rparr>]\<rparr>)"
    by code_simp
  show ?thesis
    using checkRateLimit_existing [OF h c1] checkRateLimit_existing [OF h c2] h c1 c2 by simp
qed

lemma player_activity_upsertScore: "player_activity (upsertScore db p s ts) = player_activity db"
  by (simp add: upsertScore_def split: option.split)

lemma checkRateLimit_keeps:
  assumes "find (\<lambda>r. pa_name r = k) (player_activity db) = Some a"
  shows "\<exists>a'. find (\<lambda>r. pa_name r = k) (player_activity (snd (checkRateLimit now g db p sid))) = Some a' \<and>
     first_seen a' = first_seen a \<and> session_id a' = session_id a \<and>
     submission_count a \<le> submission_count a'"
proof (cases rule: checkRateLimit_cases [of p db now g sid])
  case first
  then show ?thesis using assms by (simp add: find_append_last)
next
  case (cooldown b)
  then show ?thesis using assms by simp
next
  case (quota b)
  then show ?thesis using assms by simp
next
  case (pass b)
  then show ?thesis using assms by (simp add: find_map_touch touch_activity_def)
qed

lemma submitScore_activity:
  "player_activity (snd (submitScore fx db nameV scoreV sid)) = player_activity db \<or>
   player_activity (snd (submitScore fx db nameV scoreV sid)) =
     player_activity (snd (checkRateLimit (rateLimitNow fx) (generatedSessionId fx) db
        (trim (the_string nameV)) sid))"
  by (cases rule: submitScore_cases [of nameV fx db scoreV sid])
     (simp_all add: player_activity_upsertScore)

lemma submitScore_keeps:
  assumes "find (\<lambda>r. pa_name r = k) (player_activity db) = Some a"
  shows "\<exists>a'. find (\<lambda>r. pa_name r = k) (player_activity (snd (submitScore fx db nameV scoreV sid))) = Some a' \<and>
     first_seen a' = first_seen a \<and> session_id a' = session_id a \<and>
     submission_count a \<le> submission_count a'"
  using submitScore_activity [of fx db nameV scoreV sid]
    checkRateLimit_keeps [OF assms, of "rateLimitNow fx" "generatedSessionId fx" "trim (the_string nameV)" sid]
    assms by auto

text \<open>
  Claim C5. For a player past the cooldown gate, \<open>checkRateLimit\<close> denies with the quota
  reason exactly when less than 24 hours (86400000 ms) have passed since \<open>first_seen\<close> and
  \<open>submission_count\<close> is at least 50; from 24 hours on the call is allowed whatever the
  count. No submission changes \<open>first_seen\<close> or lowers \<open>submission_count\<close>, so the
  bypass stays for every later time.
\<close>

theorem checkRateLimit_quota_window:
  assumes "find (\<lambda>a. pa_name a = toLowerCase playerName) (player_activity db) = Some a"
    and "\<not> now - last_submission a < 30000"
  shows "(fst (checkRateLimit now generated db playerName sessionId) =
            RateLimitCheck False (Some DailyQuotaExceeded) \<longleftrightarrow>
          now - first_seen a < 86400000 \<and> 50 \<le> submission_count a) \<and>
         (86400000 \<le> now - first_seen a \<longrightarrow>
            fst (checkRateLimit now generated db playerName sessionId) = RateLimitCheck True None) \<and>
         (\<exists>a'. find (\<lambda>a. pa_name a = toLowerCase playerName)
                  (player_activity (snd (submitRequest db rq))) = Some a' \<and>
               first_seen a' = first_seen a \<and> submission_count a \<le> submission_count a')"
proof -
  have keeps: "\<exists>a'. find (\<lambda>a. pa_name a = toLowerCase playerName)
                  (player_activity (snd (submitRequest db rq))) = Some a' \<and>
               first_seen a' = first_seen a \<and> submission_count a \<le> submission_count a'"
    using submitScore_keeps [OF assms(1)] unfolding submitRequest_def by blast
  show ?thesis
  proof (cases rule: checkRateLimit_cases [of playerName db now generated sessionId])
    case first
    then show ?thesis using assms(1) by simp
  next
    case (cooldown b)
    then show ?thesis using assms by simp
  next
    case (quota b)
    then show ?thesis using assms keeps by auto
  next
    case (pass b)
    then have "b = a" using assms(1) by simp
    then show ?thesis using pass keeps by auto
  qed
qed

theorem checkRateLimit_quota_window_witness:
  "find (\<lambda>a. pa_name a = toLowerCase ''abc'') (player_activity store_busy) =
     Some \<lparr>pa_name = ''abc'', last_submission = 3000000, submission_count = 50,
           first_seen = 1000, session_id = ''k3j9x''\<rparr> \<and>
   fst (checkRateLimit 86400999 ''g'' store_busy ''abc'' None) =
     RateLimitCheck False (Some DailyQuotaExceeded) \<and>
   fst (checkRateLimit 86401000 ''g'' store_busy ''abc'' None) = RateLimitCheck True None"
proof -
  let ?a = "\<lparr>pa_name = ''abc'', last_submission = 3000000, submission_count = 50,
           first_seen = 1000, session_id = ''k3j9x''\<rparr>"
  have h: "find (\<lambda>a. pa_name a = toLowerCase ''abc'') (player_activity store_busy) = Some ?a"
    by code_simp
  have c1: "\<not> 86400999 - last_submission ?a < 30000" by simp
  have c2: "\<not> 86401000 - last_submission ?a < 30000" by simp
  show ?thesis
    using checkRateLimit_quota_window [OF h c1, of "''g''" None]
      checkRateLimit_quota_window [OF h c2, of "''g''" None] h by simp
qed

section \<open>Rejected submissions\<close>

lemma leaderboard_checkRateLimit:
  "leaderboard (snd (checkRateLimit now g db p sid)) = leaderboard db"
  by (cases rule: checkRateLimit_cases [of p db now g sid]) simp_all

lemma checkRateLimit_allowed_changes:
  assumes "checkRateLimit now g db p sid = (r, db1)" and "allowed r"
  shows "player_activity db1 \<noteq> player_activity db"
proof (cases rule: checkRateLimit_cases [of p db now g sid])
  case first
  then show ?thesis using assms by auto
next
  case (cooldown a)
  then show ?thesis using assms by auto
next
  case (quota a)
  then show ?thesis using assms by auto
next
  case (pass a)
  have mem: "a \<in> set (player_activity db)" and key: "pa_name a = toLowerCase p"
    using pass(1) by (auto simp: find_Some_iff)
  have "touch_activity now (toLowerCase p) a \<noteq> a"
  proof
    assume "touch_activity now (toLowerCase p) a = a"
    then have "submission_count (touch_activity now (toLowerCase p) a) = submission_count a" by simp
    then show False using key by (simp add: touch_activity_def)
  qed
  then have "map (touch_activity now (toLowerCase p)) (player_activity db) \<noteq> player_activity db"
    using mem map_eq_conv [of "touch_activity now (toLowerCase p)" "player_activity db" id] by auto
  then show ?thesis using pass(4) assms(1) by auto
qed

text \<open>
  Claim C3, as the code has it. The two GET routes only read (\<open>getLeaderboard\<close> and
  \<open>getRank\<close> return no store). A rejected submission never changes the leaderboard. It
  leaves the whole store unchanged when it is rejected for its name, for its score or by the
  rate limit. The only other rejection is the progression one, after the rate-limit gate has
  passed: then the store is the one \<open>checkRateLimit\<close> left, whose activity table differs
  from the one before (a row was created or updated).
\<close>

theorem submitScore_rejected:
  assumes "\<not> success (fst (submitScore fx db nameV scoreV sessionId))"
  shows "leaderboard (snd (submitScore fx db nameV scoreV sessionId)) = leaderboard db \<and>
    (msg (fst (submitScore fx db nameV scoreV sessionId)) \<in>
        {InvalidName, InvalidScore, CooldownActive, DailyQuotaExceeded} \<longrightarrow>
       snd (submitScore fx db nameV scoreV sessionId) = db) \<and>
    (msg (fst (submitScore fx db nameV scoreV sessionId)) \<notin>
        {InvalidName, InvalidScore, CooldownActive, DailyQuotaExceeded} \<longrightarrow>
       (\<exists>n. msg (fst (submitScore fx db nameV scoreV sessionId)) = MustExceedRecord n) \<and>
       snd (submitScore fx db nameV scoreV sessionId) =
         snd (checkRateLimit (rateLimitNow fx) (generatedSessionId fx) db
                (trim (the_string nameV)) sessionId) \<and>
       player_activity (snd (submitScore fx db nameV scoreV sessionId)) \<noteq> player_activity db)"
proof (cases rule: submitScore_cases [of nameV fx db scoreV sessionId])
  case bad_name
  then show ?thesis by simp
next
  case bad_score
  then show ?thesis by simp
next
  case (limited r db1)
  have "db1 = db \<and> (rate_reason r = Some CooldownActive \<or> rate_reason r = Some DailyQuotaExceeded)"
    using limited(3,4) by (cases rule: checkRateLimit_cases [of "trim (the_string nameV)" db "rateLimitNow fx" "generatedSessionId fx" sessionId]) auto
  then show ?thesis using limited(5) by auto
next
  case (no_progress r db1)
  obtain n where n: "progression_reason (validateScoreProgression db1 (trim (the_string nameV)) (the_number scoreV)) = Some (MustExceedRecord n)"
    using validateScoreProgression_invalid_reason [OF no_progress(5)] by blast
  have l: "leaderboard db1 = leaderboard db"
    using leaderboard_checkRateLimit [of "rateLimitNow fx" "generatedSessionId fx" db "trim (the_string nameV)" sessionId] no_progress(3) by simp
  have c: "player_activity db1 \<noteq> player_activity db"
    using checkRateLimit_allowed_changes [OF no_progress(3,4)] .
  show ?thesis using no_progress(3,6) n l c by simp
next
  case (saved r db1)
  then show ?thesis using assms by simp
qed


text \<open>The example stores and submissions, evaluated.\<close>

lemma store_abc_value:
  "store_abc =
     \<lparr>leaderboard = [\<lparr>name = ''abc'', score = 10, timestamp = 1001\<rparr>],
      player_activity = [\<lparr>pa_name = ''abc'', last_submission = 1000, submission_count = 1,
         first_seen = 1000, session_id = ''k3j9x''\<rparr>]\<rparr>"
  by code_simp

lemma submit_lower_score_value:
  "submitScore effects_second store_abc (JString ''abc'') (JNumber (Finite 5)) None =
     (Response 400 False (MustExceedRecord 10),
      \<lparr>leaderboard = [\<lparr>name = ''abc'', score = 10, timestamp = 1001\<rparr>],
       player_activity = [\<lparr>pa_name = ''abc'', last_submission = 40000, submission_count = 2,
          first_seen = 1000, session_id = ''k3j9x''\<rparr>]\<rparr>)"
  by code_simp

lemma submit_short_name_value:
  "submitScore effects_second store_abc (JString ''ab'') (JNumber (Finite 5)) None =
     (Response 400 False InvalidName, store_abc)"
  by code_simp

text \<open>
  Claim C3 as the specification states it fails: "abc" holds 10 and submits 5 after the
  cooldown; the submission is rejected and the activity table has changed.
\<close>

theorem submitScore_rejected_counterexample:
  "\<not> success (fst (submitScore effects_second store_abc (JString ''abc'') (JNumber (Finite 5)) None)) \<and>
   player_activity (snd (submitScore effects_second store_abc (JString ''abc'') (JNumber (Finite 5)) None))
     \<noteq> player_activity store_abc"
  unfolding submit_lower_score_value by (simp add: store_abc_value)

theorem submitScore_rejected_witness:
  "\<not> success (fst (submitScore effects_second store_abc (JString ''abc'') (JNumber (Finite 5)) None)) \<and>
   leaderboard (snd (submitScore effects_second store_abc (JString ''abc'') (JNumber (Finite 5)) None)) =
     leaderboard store_abc \<and>
   \<not> success (fst (submitScore effects_second store_abc (JString ''ab'') (JNumber (Finite 5)) None)) \<and>
   snd (submitScore effects_second store_abc (JString ''ab'') (JNumber (Finite 5)) None) = store_abc"
proof -
  have a: "\<not> success (fst (submitScore effects_second store_abc (JString ''abc'') (JNumber (Finite 5)) None))"
    by (simp add: submit_lower_score_value)
  have b: "\<not> success (fst (submitScore effects_second store_abc (JString ''ab'') (JNumber (Finite 5)) None))"
    by (simp add: submit_short_name_value)
  have c: "msg (fst (submitScore effects_second store_abc (JString ''ab'') (JNumber (Finite 5)) None)) = InvalidName"
    by (simp add: submit_short_name_value)
  show ?thesis using submitScore_rejected [OF a] submitScore_rejected [OF b] a b c by simp
qed

section \<open>The session id\<close>

lemma activity_core_touch:
  "activity_core (touch_activity now k a) =
     (if pa_name a = k then (pa_name a, now, submission_count a + 1, first_seen a) else activity_core a)"
  by (simp add: activity_core_def touch_activity_def)

lemma find_core:
  "map activity_core xs = map activity_core ys \<Longrightarrow>
   map_option activity_core (find (\<lambda>a. pa_name a = k) xs) =
   map_option activity_core (find (\<lambda>a. pa_name a = k) ys)"
proof (induction xs arbitrary: ys)
  case Nil
  then show ?case by simp
next
  case (Cons x xs)
  then obtain y ys' where ys: "ys = y # ys'" by (cases ys) auto
  have c: "activity_core x = activity_core y" and r: "map activity_core xs = map activity_core ys'"
    using Cons.prems ys by simp_all
  have n: "pa_name x = pa_name y" using c by (simp add: activity_core_def)
  show ?case using Cons.IH [OF r] c n ys by simp
qed

lemma find_core_Some:
  assumes "map activity_core xs = map activity_core ys"
    and "find (\<lambda>a. pa_name a = k) xs = Some a1"
  shows "\<exists>a2. find (\<lambda>a. pa_name a = k) ys = Some a2 \<and> activity_core a1 = activity_core a2"
  using find_core [OF assms(1), of k] assms(2)
  by (cases "find (\<lambda>a. pa_name a = k) ys") auto

lemma map_core_touch:
  "map activity_core xs = map activity_core ys \<Longrightarrow>
   map activity_core (map (touch_activity now k) xs) = map activity_core (map (touch_activity now k) ys)"
proof (induction xs arbitrary: ys)
  case Nil
  then show ?case by simp
next
  case (Cons x xs)
  then obtain y ys' where ys: "ys = y # ys'" by (cases ys) auto
  have c: "activity_core x = activity_core y" and r: "map activity_core xs = map activity_core ys'"
    using Cons.prems ys by simp_all
  have "activity_core (touch_activity now k x) = activity_core (touch_activity now k y)"
    using c by (simp add: activity_core_touch) (simp add: activity_core_def)
  then show ?case using Cons.IH [OF r] ys by simp
qed

lemma checkRateLimit_session_blind:
  assumes l: "leaderboard db1 = leaderboard db2"
    and a: "map activity_core (player_activity db1) = map activity_core (player_activity db2)"
  shows "fst (checkRateLimit now g db1 p sid1) = fst (checkRateLimit now g db2 p sid2) \<and>
    leaderboard (snd (checkRateLimit now g db1 p sid1)) = leaderboard (snd (checkRateLimit now g db2 p sid2)) \<and>
    map activity_core (player_activity (snd (checkRateLimit now g db1 p sid1))) =
    map activity_core (player_activity (snd (checkRateLimit now g db2 p sid2)))"
proof -
  have f: "map_option activity_core (find (\<lambda>a. pa_name a = toLowerCase p) (player_activity db1)) =
     map_option activity_core (find (\<lambda>a. pa_name a = toLowerCase p) (player_activity db2))"
    using find_core [OF a] .
  show ?thesis
  proof (cases rule: checkRateLimit_cases [of p db1 now g sid1])
    case first
    then have "find (\<lambda>a. pa_name a = toLowerCase p) (player_activity db2) = None" using f by simp
    then show ?thesis using first l a
      by (simp add: checkRateLimit_first activity_core_def new_activity_def)
  next
    case (cooldown a1)
    then obtain a2 where a2: "find (\<lambda>a. pa_name a = toLowerCase p) (player_activity db2) = Some a2"
      "activity_core a1 = activity_core a2" using find_core_Some [OF a] by blast
    then have "now - last_submission a2 < 30000" using cooldown(2) by (simp add: activity_core_def)
    then show ?thesis using cooldown a2 l a by (simp add: checkRateLimit_cooldown)
  next
    case (quota a1)
    then obtain a2 where a2: "find (\<lambda>a. pa_name a = toLowerCase p) (player_activity db2) = Some a2"
      "activity_core a1 = activity_core a2" using find_core_Some [OF a] by blast
    then have "\<not> now - last_submission a2 < 30000" "now - first_seen a2 < 86400000" "50 \<le> submission_count a2"
      using quota(2,3,4) by (simp_all add: activity_core_def)
    then show ?thesis using quota a2 l a by (simp add: checkRateLimit_quota)
  next
    case (pass a1)
    then obtain a2 where a2: "find (\<lambda>a. pa_name a = toLowerCase p) (player_activity db2) = Some a2"
      "activity_core a1 = activity_core a2" using find_core_Some [OF a] by blast
    then have "\<not> now - last_submission a2 < 30000" "\<not> (now - first_seen a2 < 86400000 \<and> 50 \<le> submission_count a2)"
      using pass(2,3) by (simp_all add: activity_core_def)
    then show ?thesis using pass a2 l map_core_touch [OF a] by (simp add: checkRateLimit_pass)
  qed
qed

lemma leaderboard_upsertScore_cong:
  "leaderboard db1 = leaderboard db2 \<Longrightarrow>
   leaderboard (upsertScore db1 p s ts) = leaderboard (upsertScore db2 p s ts)"
  by (simp add: upsertScore_def split: option.split)

lemma validateScoreProgression_cong:
  "leaderboard db1 = leaderboard db2 \<Longrightarrow>
   validateScoreProgression db1 p s = validateScoreProgression db2 p s"
  by (simp add: validateScoreProgression_def)

lemma submitScore_session_blind:
  assumes l: "leaderboard db1 = leaderboard db2"
    and a: "map activity_core (player_activity db1) = map activity_core (player_activity db2)"
  shows "fst (submitScore fx db1 nameV scoreV sid1) = fst (submitScore fx db2 nameV scoreV sid2) \<and>
    leaderboard (snd (submitScore fx db1 nameV scoreV sid1)) =
      leaderboard (snd (submitScore fx db2 nameV scoreV sid2)) \<and>
    map activity_core (player_activity (snd (submitScore fx db1 nameV scoreV sid1))) =
      map activity_core (player_activity (snd (submitScore fx db2 nameV scoreV sid2)))"
proof -
  let ?p = "trim (the_string nameV)"
  obtain r1 d1 where c1: "checkRateLimit (rateLimitNow fx) (generatedSessionId fx) db1 ?p sid1 = (r1, d1)"
    by (cases "checkRateLimit (rateLimitNow fx) (generatedSessionId fx) db1 ?p sid1")
  obtain r2 d2 where c2: "checkRateLimit (rateLimitNow fx) (generatedSessionId fx) db2 ?p sid2 = (r2, d2)"
    by (cases "checkRateLimit (rateLimitNow fx) (generatedSessionId fx) db2 ?p sid2")
  have b: "r1 = r2" "leaderboard d1 = leaderboard d2"
    "map activity_core (player_activity d1) = map activity_core (player_activity d2)"
    using checkRateLimit_session_blind [OF l a, of "rateLimitNow fx" "generatedSessionId fx" ?p sid1 sid2] c1 c2
    by simp_all
  have v: "validateScoreProgression d1 ?p (the_number scoreV) = validateScoreProgression d2 ?p (the_number scoreV)"
    using validateScoreProgression_cong [OF b(2)] .
  have u: "leaderboard (upsertScore d1 ?p (the_number scoreV) (submitTimestamp fx)) =
      leaderboard (upsertScore d2 ?p (the_number scoreV) (submitTimestamp fx))"
    using leaderboard_upsertScore_cong [OF b(2)] .
  show ?thesis using l a c1 c2 b v u
    by (simp add: submitScore_def Let_def player_activity_upsertScore)
qed


lemma session_id_touch: "session_id (touch_activity now k r) = session_id r"
  by (simp add: touch_activity_def)

lemma checkRateLimit_session_ids:
  "\<exists>new. map session_id (player_activity (snd (checkRateLimit now g db p sid))) =
           map session_id (player_activity db) @ new \<and>
         (new = [] \<or>
          new = [sessionId_or sid g] \<and>
          find (\<lambda>a. pa_name a = toLowerCase p) (player_activity db) = None)"
proof (cases rule: checkRateLimit_cases [of p db now g sid])
  case first
  then show ?thesis by (simp add: new_activity_def)
next
  case (cooldown a)
  then show ?thesis by simp
next
  case (quota a)
  then show ?thesis by simp
next
  case (pass a)
  then show ?thesis by (simp add: session_id_touch)
qed

lemma submitScore_session_ids:
  "\<exists>new. map session_id (player_activity (snd (submitScore fx db nameV scoreV sid))) =
           map session_id (player_activity db) @ new \<and>
         (new = [] \<or>
          new = [sessionId_or sid (generatedSessionId fx)] \<and>
          find (\<lambda>a. pa_name a = toLowerCase (trim (the_string nameV))) (player_activity db) = None)"
  using submitScore_activity [of fx db nameV scoreV sid]
    checkRateLimit_session_ids [of "rateLimitNow fx" "generatedSessionId fx" db "trim (the_string nameV)" sid]
  by auto

lemma reads_leaderboard_only:
  "leaderboard db1 = leaderboard db2 \<Longrightarrow>
   getRank db1 n = getRank db2 n \<and> getLeaderboard db1 = getLeaderboard db2"
  by (simp add: getRank_def rankedRows_def getLeaderboard_def)

text \<open>
  With the session id at its declared type, a string or nothing: stores that agree up to
  their session ids, and submissions that differ only in the session id, give the same
  response, the same leaderboard and the same activity rows up to session ids.
\<close>

lemma submitScore_hint_blind:
  assumes "leaderboard db1 = leaderboard db2"
    and "map activity_core (player_activity db1) = map activity_core (player_activity db2)"
  shows "fst (submitScore fx db1 nameV scoreV sid1) = fst (submitScore fx db2 nameV scoreV sid2) \<and>
    leaderboard (snd (submitScore fx db1 nameV scoreV sid1)) =
      leaderboard (snd (submitScore fx db2 nameV scoreV sid2)) \<and>
    map activity_core (player_activity (snd (submitScore fx db1 nameV scoreV sid1))) =
      map activity_core (player_activity (snd (submitScore fx db2 nameV scoreV sid2))) \<and>
    getRank db1 n = getRank db2 n \<and> getLeaderboard db1 = getLeaderboard db2 \<and>
    (\<exists>new. map session_id (player_activity (snd (submitScore fx db1 nameV scoreV sid1))) =
             map session_id (player_activity db1) @ new \<and>
           (new = [] \<or>
            new = [sessionId_or sid1 (generatedSessionId fx)] \<and>
            find (\<lambda>a. pa_name a = toLowerCase (trim (the_string nameV))) (player_activity db1) = None))"
  using submitScore_session_blind [OF assms, of fx nameV scoreV sid1 sid2]
    reads_leaderboard_only [OF assms(1), of n]
    submitScore_session_ids [of fx db1 nameV scoreV sid1]
  by simp

section \<open>The top scores\<close>

lemma sorted_desc_orderByScoreDesc:
  "sorted_wrt (\<lambda>a b. score b \<le> score a) (orderByScoreDesc rows)"
proof -
  have "sorted (map (\<lambda>e. - score e) (orderByScoreDesc rows))"
    unfolding orderByScoreDesc_def by (rule sorted_sort_key)
  then show ?thesis by (simp add: sorted_map) 
qed

lemma mset_orderByScoreDesc: "mset (orderByScoreDesc rows) = mset rows"
  by (simp add: orderByScoreDesc_def)

lemma sorted_wrt_take_drop:
  "sorted_wrt R xs \<Longrightarrow> \<forall>x\<in>set (take k xs). \<forall>y\<in>set (drop k xs). R x y"
  by (metis append_take_drop_id sorted_wrt_append)

text \<open>
  Claim C9. The leaderboard route returns the entries in descending order of score, cut to
  10: at most 10 entries (exactly 10 of 15), all of them entries of the store, sorted by
  score descending, and no entry left out has a higher score than one returned.
\<close>

theorem getLeaderboard_top10:
  "length (getLeaderboard db) = min 10 (length (leaderboard db)) \<and>
   sorted_wrt (\<lambda>a b. score b \<le> score a) (getLeaderboard db) \<and>
   mset (getLeaderboard db) \<subseteq># mset (leaderboard db) \<and>
   (\<forall>e \<in># mset (leaderboard db) - mset (getLeaderboard db).
      \<forall>t \<in> set (getLeaderboard db). score e \<le> score t) \<and>
   (length (leaderboard db) = 15 \<longrightarrow> length (getLeaderboard db) = 10)"
proof -
  let ?s = "orderByScoreDesc (leaderboard db)"
  have srt: "sorted_wrt (\<lambda>a b. score b \<le> score a) ?s" by (rule sorted_desc_orderByScoreDesc)
  have len: "length (getLeaderboard db) = min 10 (length (leaderboard db))"
    by (simp add: getLeaderboard_def length_orderByScoreDesc)
  have s1: "sorted_wrt (\<lambda>a b. score b \<le> score a) (getLeaderboard db)"
    unfolding getLeaderboard_def using srt by (rule sorted_wrt_take)
  have split: "mset (leaderboard db) = mset (take 10 ?s) + mset (drop 10 ?s)"
    by (metis append_take_drop_id mset_append mset_orderByScoreDesc)
  have sub: "mset (getLeaderboard db) \<subseteq># mset (leaderboard db)"
    unfolding getLeaderboard_def split by simp
  have rest: "mset (leaderboard db) - mset (getLeaderboard db) = mset (drop 10 ?s)"
    unfolding getLeaderboard_def split by simp
  have low: "\<forall>e \<in># mset (leaderboard db) - mset (getLeaderboard db).
      \<forall>t \<in> set (getLeaderboard db). score e \<le> score t"
    unfolding rest using sorted_wrt_take_drop [OF srt, of 10]
    by (auto simp: getLeaderboard_def)
  show ?thesis using len s1 sub low by simp
qed

lemma top_fifteen_value:
  "map name (getLeaderboard store_fifteen) =
     [''p02'', ''p10'', ''p07'', ''p14'', ''p15'', ''p05'', ''p12'', ''p03'', ''p06'', ''p11'']"
  by code_simp

lemma length_fifteen: "length (leaderboard store_fifteen) = 15"
  by (simp add: store_fifteen_def)

theorem getLeaderboard_top10_witness:
  "length (leaderboard store_fifteen) = 15 \<and> length (getLeaderboard store_fifteen) = 10 \<and>
   map name (getLeaderboard store_fifteen) =
     [''p02'', ''p10'', ''p07'', ''p14'', ''p15'', ''p05'', ''p12'', ''p03'', ''p06'', ''p11'']"
  using getLeaderboard_top10 [of store_fifteen] length_fifteen top_fifteen_value by simp

section \<open>Score progression\<close>

lemma toLowerChar_idem: "toLowerChar (toLowerChar c) = toLowerChar c"
proof (cases "isUpperCase c")
  case False
  then show ?thesis by (simp add: toLowerChar_def)
next
  case True
  then have "\<not> isUpperCase (char_of ((of_char c :: nat) + 32))"
    by (auto simp: isUpperCase_def Let_def)
  then show ?thesis using True by (simp add: toLowerChar_def)
qed

lemma toLowerCase_idem: "toLowerCase (toLowerCase s) = toLowerCase s"
  by (simp add: toLowerCase_def toLowerChar_idem)

lemma name_set_score: "name (set_score k s ts e) = name e"
  by (simp add: set_score_def)

lemma find_name_unique:
  assumes "distinct (map name xs)" and "find (\<lambda>e. name e = k) xs = Some e0"
    and "e \<in> set xs" and "name e = k"
  shows "e = e0"
proof -
  have "e0 \<in> set xs" "name e0 = k" using assms(2) by (auto simp: find_Some_iff)
  moreover have "inj_on name (set xs)" using assms(1) by (simp add: distinct_map)
  ultimately show ?thesis using assms(3,4) by (auto dest: inj_onD)
qed

lemma upsertScore_names:
  assumes "distinct (map name (leaderboard db))"
    and "\<forall>e\<in>set (leaderboard db). toLowerCase (name e) = name e"
  shows "distinct (map name (leaderboard (upsertScore db p s ts))) \<and>
    (\<forall>e\<in>set (leaderboard (upsertScore db p s ts)). toLowerCase (name e) = name e)"
proof (cases "find (\<lambda>e. name e = toLowerCase p) (leaderboard db)")
  case None
  then have "toLowerCase p \<notin> name ` set (leaderboard db)" by (auto simp: find_None_iff)
  then show ?thesis using assms None by (simp add: upsertScore_def toLowerCase_idem)
next
  case (Some e0)
  have "name \<circ> set_score (toLowerCase p) (int_of_number s) ts = name"
    by (rule ext) (simp add: name_set_score)
  then show ?thesis using assms Some by (auto simp: upsertScore_def name_set_score)
qed

lemma submitScore_leaderboard:
  "leaderboard (snd (submitScore fx db nameV scoreV sid)) = leaderboard db \<or>
   (success (fst (submitScore fx db nameV scoreV sid)) \<and> name_ok nameV \<and> score_ok scoreV \<and>
    (\<exists>db1. leaderboard db1 = leaderboard db \<and>
       valid (validateScoreProgression db1 (trim (the_string nameV)) (the_number scoreV)) \<and>
       snd (submitScore fx db nameV scoreV sid) =
         upsertScore db1 (trim (the_string nameV)) (the_number scoreV) (submitTimestamp fx)))"
proof (cases rule: submitScore_cases [of nameV fx db scoreV sid])
  case (limited r db1)
  then show ?thesis
    using leaderboard_checkRateLimit [of "rateLimitNow fx" "generatedSessionId fx" db "trim (the_string nameV)" sid]
    by simp
next
  case (no_progress r db1)
  then show ?thesis
    using leaderboard_checkRateLimit [of "rateLimitNow fx" "generatedSessionId fx" db "trim (the_string nameV)" sid]
    by simp
next
  case (saved r db1)
  have "leaderboard db1 = leaderboard db"
    using saved(3) leaderboard_checkRateLimit [of "rateLimitNow fx" "generatedSessionId fx" db "trim (the_string nameV)" sid]
    by simp
  then show ?thesis using saved by auto
qed simp_all

lemma names_ok_submitScore:
  assumes "names_ok db"
  shows "names_ok (snd (submitScore fx db nameV scoreV sid))"
proof -
  consider (same) "leaderboard (snd (submitScore fx db nameV scoreV sid)) = leaderboard db"
    | (up) db1 where "leaderboard db1 = leaderboard db"
       "snd (submitScore fx db nameV scoreV sid) =
         upsertScore db1 (trim (the_string nameV)) (the_number scoreV) (submitTimestamp fx)"
    using submitScore_leaderboard [of fx db nameV scoreV sid] by blast
  then show ?thesis
  proof cases
    case same
    then show ?thesis using assms by (simp add: names_ok_def)
  next
    case (up db1)
    then have "names_ok db1" using assms by (simp add: names_ok_def)
    then show ?thesis using upsertScore_names [of db1] up(2) by (simp add: names_ok_def)
  qed
qed

lemma reachable_names_ok: "reachable db \<Longrightarrow> names_ok db"
proof (induction rule: reachable.induct)
  case reachable_empty
  show ?case by (simp add: names_ok_def empty_database_def)
next
  case (reachable_submit db fx nameV scoreV sessionId)
  then show ?case by (simp add: names_ok_submitScore)
qed

lemma score_ok_int:
  assumes "score_ok scoreV"
  shows "\<exists>n::int. the_number scoreV = Finite (of_int n) \<and> 0 < n \<and> n \<le> 3600"
proof -
  have "isValidScore (the_number scoreV)" using assms by (simp add: score_ok_def)
  then obtain q where q: "the_number scoreV = Finite q" "0 < q" "q \<le> 3600" "of_int \<lfloor>q\<rfloor> = q"
    by (cases "the_number scoreV") (simp_all add: isValidScore_Finite isValidScore_special)
  have "0 < \<lfloor>q\<rfloor>" using q(2,4) by (metis of_int_0_less_iff)
  moreover have "\<lfloor>q\<rfloor> \<le> 3600" using q(3) by (metis floor_numeral le_floor_iff floor_mono)
  ultimately show ?thesis using q(1,4) by (metis)
qed


lemma upsertScore_step:
  assumes d: "distinct (map name (leaderboard db))"
    and e: "e \<in> set (leaderboard db)"
    and v: "valid (validateScoreProgression db p (Finite (of_int n)))"
  shows "\<exists>e'\<in>set (leaderboard (upsertScore db p (Finite (of_int n)) ts)).
           name e' = name e \<and> score e \<le> score e' \<and>
           (name e = toLowerCase p \<longrightarrow> score e < score e' \<and> score e' = n)"
proof (cases rule: validateScoreProgression_cases [of p db "Finite (of_int n)"])
  case none
  then have "name e \<noteq> toLowerCase p" using e by (auto simp: find_None_iff)
  then show ?thesis using none e by (auto simp: upsertScore_def)
next
  case (low e0)
  then show ?thesis using v by simp
next
  case (high e0)
  have lt: "score e0 < n" using high(2) by simp
  show ?thesis
  proof (cases "name e = toLowerCase p")
    case True
    then have eq: "e = e0" using find_name_unique [OF d high(1) e] by simp
    have "set_score (toLowerCase p) n ts e \<in> set (leaderboard (upsertScore db p (Finite (of_int n)) ts))"
      using high(1) e by (simp add: upsertScore_def)
    moreover have "name (set_score (toLowerCase p) n ts e) = name e"
      "score (set_score (toLowerCase p) n ts e) = n"
      using True by (simp_all add: set_score_def)
    ultimately show ?thesis using lt eq by force
  next
    case False
    then have "set_score (toLowerCase p) n ts e = e" by (simp add: set_score_def)
    then have "e \<in> set (leaderboard (upsertScore db p (Finite (of_int n)) ts))"
      using high(1) e by (force simp: upsertScore_def)
    then show ?thesis using False by auto
  qed
qed

lemma submitScore_step:
  assumes d: "distinct (map name (leaderboard db))" and e: "e \<in> set (leaderboard db)"
  shows "\<exists>e'\<in>set (leaderboard (snd (submitScore fx db nameV scoreV sid))).
           name e' = name e \<and> score e \<le> score e' \<and>
           (success (fst (submitScore fx db nameV scoreV sid)) \<and>
            name e = toLowerCase (trim (the_string nameV)) \<longrightarrow>
              score e < score e' \<and> Finite (of_int (score e')) = the_number scoreV)"
proof (cases rule: submitScore_cases [of nameV fx db scoreV sid])
  case bad_name
  then show ?thesis using e by auto
next
  case bad_score
  then show ?thesis using e by auto
next
  case (limited r db1)
  then have "leaderboard db1 = leaderboard db"
    using leaderboard_checkRateLimit [of "rateLimitNow fx" "generatedSessionId fx" db "trim (the_string nameV)" sid]
    by simp
  then show ?thesis using limited(5) e by auto
next
  case (no_progress r db1)
  then have "leaderboard db1 = leaderboard db"
    using leaderboard_checkRateLimit [of "rateLimitNow fx" "generatedSessionId fx" db "trim (the_string nameV)" sid]
    by simp
  then show ?thesis using no_progress(6) e by auto
next
  case (saved r db1)
  have l: "leaderboard db1 = leaderboard db"
    using saved(3) leaderboard_checkRateLimit [of "rateLimitNow fx" "generatedSessionId fx" db "trim (the_string nameV)" sid]
    by simp
  obtain n :: int where n: "the_number scoreV = Finite (of_int n)"
    using score_ok_int [OF saved(2)] by blast
  have d1: "distinct (map name (leaderboard db1))" and e1: "e \<in> set (leaderboard db1)"
    using d e l by simp_all
  have v1: "valid (validateScoreProgression db1 (trim (the_string nameV)) (Finite (of_int n)))"
    using saved(5) n by simp
  show ?thesis
    using upsertScore_step [OF d1 e1 v1, of "submitTimestamp fx"] saved(6) n by auto
qed

lemma reachable_submitAll: "reachable db \<Longrightarrow> reachable (submitAll db rqs)"
proof (induction rqs arbitrary: db)
  case Nil
  then show ?case by simp
next
  case (Cons rq rqs)
  have "reachable (snd (submitRequest db rq))"
    unfolding submitRequest_def using Cons.prems by (rule reachable_submit)
  then show ?case using Cons.IH by simp
qed

lemma submitAll_monotone:
  assumes "names_ok db" and "e \<in> set (leaderboard db)"
  shows "\<exists>e'\<in>set (leaderboard (submitAll db rqs)). name e' = name e \<and> score e \<le> score e'"
  using assms
proof (induction rqs arbitrary: db e)
  case Nil
  then show ?case by auto
next
  case (Cons rq rqs)
  let ?db1 = "snd (submitRequest db rq)"
  have ok1: "names_ok ?db1"
    unfolding submitRequest_def using Cons.prems(1) by (rule names_ok_submitScore)
  have "distinct (map name (leaderboard db))" using Cons.prems(1) by (simp add: names_ok_def)
  then obtain e1 where e1: "e1 \<in> set (leaderboard ?db1)" "name e1 = name e" "score e \<le> score e1"
    using submitScore_step [OF _ Cons.prems(2), of "req_effects rq" "req_name rq" "req_score rq" "req_sessionId rq"]
    unfolding submitRequest_def by blast
  obtain e' where "e' \<in> set (leaderboard (submitAll ?db1 rqs))" "name e' = name e1" "score e1 \<le> score e'"
    using Cons.IH [OF ok1 e1(1)] by blast
  then show ?case using e1 by force
qed


lemma validateScoreProgression_low:
  assumes d: "distinct (map name (leaderboard db))" and e: "e \<in> set (leaderboard db)"
    and k: "name e = toLowerCase p" and le: "num_le s (Finite (of_int (score e)))"
  shows "validateScoreProgression db p s = ProgressionCheck False (Some (MustExceedRecord (score e)))"
proof (cases rule: validateScoreProgression_cases [of p db s])
  case none
  then show ?thesis using e k by (auto simp: find_None_iff)
next
  case (low e0)
  then show ?thesis using find_name_unique [OF d low(1) e k] by simp
next
  case (high e0)
  then show ?thesis using find_name_unique [OF d high(1) e k] le by simp
qed

text \<open>
  Claim C6. In every store reached from the empty one by submissions, no two leaderboard
  entries have the same name, and every name is its own lower-case form. For an entry of
  such a store and any further submission: the entry of that name afterwards has a score at
  least as high; if the submission is accepted and is for that name, the stored score becomes
  the submitted one and is strictly higher; a submission for that name with a score not above
  the stored one is rejected, \<open>validateScoreProgression\<close> answering "must exceed" with the
  stored score. Over any sequence of submissions the score of the name never goes down.
\<close>

theorem reachable_scores_monotone:
  assumes "reachable db"
  shows "distinct (map name (leaderboard db)) \<and>
    (\<forall>e\<in>set (leaderboard db). toLowerCase (name e) = name e) \<and>
    (\<forall>e\<in>set (leaderboard db).
       (\<exists>e'\<in>set (leaderboard (snd (submitScore fx db nameV scoreV sid))).
          name e' = name e \<and> score e \<le> score e' \<and>
          (success (fst (submitScore fx db nameV scoreV sid)) \<and>
           name e = toLowerCase (trim (the_string nameV)) \<longrightarrow>
             score e < score e' \<and> Finite (of_int (score e')) = the_number scoreV)) \<and>
       (name e = toLowerCase (trim (the_string nameV)) \<and>
        num_le (the_number scoreV) (Finite (of_int (score e))) \<longrightarrow>
          \<not> success (fst (submitScore fx db nameV scoreV sid)) \<and>
          validateScoreProgression db (trim (the_string nameV)) (the_number scoreV) =
            ProgressionCheck False (Some (MustExceedRecord (score e)))) \<and>
       (\<exists>e'\<in>set (leaderboard (submitAll db rqs)). name e' = name e \<and> score e \<le> score e'))"
proof -
  have ok: "names_ok db" using assms by (rule reachable_names_ok)
  then have d: "distinct (map name (leaderboard db))"
    and lower: "\<forall>e\<in>set (leaderboard db). toLowerCase (name e) = name e"
    by (simp_all add: names_ok_def)
  have each: "(\<exists>e'\<in>set (leaderboard (snd (submitScore fx db nameV scoreV sid))).
          name e' = name e \<and> score e \<le> score e' \<and>
          (success (fst (submitScore fx db nameV scoreV sid)) \<and>
           name e = toLowerCase (trim (the_string nameV)) \<longrightarrow>
             score e < score e' \<and> Finite (of_int (score e')) = the_number scoreV)) \<and>
       (name e = toLowerCase (trim (the_string nameV)) \<and>
        num_le (the_number scoreV) (Finite (of_int (score e))) \<longrightarrow>
          \<not> success (fst (submitScore fx db nameV scoreV sid)) \<and>
          validateScoreProgression db (trim (the_string nameV)) (the_number scoreV) =
            ProgressionCheck False (Some (MustExceedRecord (score e)))) \<and>
       (\<exists>e'\<in>set (leaderboard (submitAll db rqs)). name e' = name e \<and> score e \<le> score e')"
    if e: "e \<in> set (leaderboard db)" for e
  proof -
    note step = submitScore_step [OF d e, of fx nameV scoreV sid]
    have rej: "\<not> success (fst (submitScore fx db nameV scoreV sid))"
      if k: "name e = toLowerCase (trim (the_string nameV))"
        and le: "num_le (the_number scoreV) (Finite (of_int (score e)))"
    proof
      assume ok: "success (fst (submitScore fx db nameV scoreV sid))"
      obtain e' :: LeaderboardEntry
        where "score e < score e'" "Finite (of_int (score e')) = the_number scoreV"
        using step ok k by blast
      then have "num_le (Finite (of_int (score e'))) (Finite (of_int (score e)))" "score e < score e'"
        using le by simp_all
      then show False by simp
    qed
    show ?thesis
      using step rej validateScoreProgression_low [OF d e] submitAll_monotone [OF ok e, of rqs]
      by blast
  qed
  show ?thesis using d lower each by blast
qed

lemma reachable_store_abc: "reachable store_abc"
  unfolding store_abc_def by (rule reachable_submit [OF reachable_empty])

lemma submit_higher_score_value:
  "submitScore effects_second store_abc (JString ''abc'') (JNumber (Finite 15)) None =
     (Response 200 True ScoreSaved,
      \<lparr>leaderboard = [\<lparr>name = ''abc'', score = 15, timestamp = 40001\<rparr>],
       player_activity = [\<lparr>pa_name = ''abc'', last_submission = 40000, submission_count = 2,
          first_seen = 1000, session_id = ''k3j9x''\<rparr>]\<rparr>)"
  by code_simp

theorem reachable_scores_monotone_witness:
  "reachable store_abc \<and> distinct (map name (leaderboard store_abc)) \<and>
   leaderboard store_abc = [\<lparr>name = ''abc'', score = 10, timestamp = 1001\<rparr>] \<and>
   leaderboard (snd (submitScore effects_second store_abc (JString ''abc'') (JNumber (Finite 15)) None)) =
     [\<lparr>name = ''abc'', score = 15, timestamp = 40001\<rparr>] \<and>
   \<not> success (fst (submitScore effects_second store_abc (JString ''abc'') (JNumber (Finite 5)) None))"
proof -
  let ?e = "\<lparr>name = ''abc'', score = 10, timestamp = 1001\<rparr>"
  have mem: "?e \<in> set (leaderboard store_abc)" by (simp add: store_abc_value)
  have key: "name ?e = toLowerCase (trim (the_string (JString ''abc'')))" by code_simp
  have low: "num_le (the_number (JNumber (Finite 5))) (Finite (of_int (score ?e)))" by simp
  note t = reachable_scores_monotone [OF reachable_store_abc, of effects_second "JString ''abc''"
      "JNumber (Finite 5)" None "[]"]
  have d: "distinct (map name (leaderboard store_abc))" using t by blast
  have r: "\<not> success (fst (submitScore effects_second store_abc (JString ''abc'') (JNumber (Finite 5)) None))"
    using t mem key low by blast
  have l1: "leaderboard store_abc = [?e]" by (simp add: store_abc_value)
  have l2: "leaderboard (snd (submitScore effects_second store_abc (JString ''abc'')
      (JNumber (Finite 15)) None)) = [\<lparr>name = ''abc'', score = 15, timestamp = 40001\<rparr>]"
    by (simp add: submit_higher_score_value)
  show ?thesis using d r reachable_store_abc l1 l2 by (intro conjI)
qed

section \<open>The rate limiter of the older Bun server, evaluated\<close>

lemma bun_row_undefined:
  "property (bun_row a) ''lastSubmission'' = JUndefined"
  "property (bun_row a) ''firstSeen'' = JUndefined"
  "property (bun_row a) ''submissionCount'' = JUndefined"
  by (simp_all add: property_def bun_row_def)

lemma checkRateLimit_bun_first:
  assumes "find (\<lambda>a. pa_name a = toLowerCase p) (player_activity db) = None"
  shows "checkRateLimit_bun now g db p sid = checkRateLimit now g db p sid"
  using assms by (simp add: checkRateLimit_bun_def checkRateLimit_first)

text \<open>
  With a row for the player, the three reads are \<^verbatim>\<open>undefined\<close>, both tests compare NaN and
  are false: the Bun server never denies, and every call runs the UPDATE.
\<close>

lemma checkRateLimit_bun_existing:
  assumes "find (\<lambda>a. pa_name a = toLowerCase p) (player_activity db) = Some a"
  shows "checkRateLimit_bun now g db p sid =
    (RateLimitCheck True None,
     db\<lparr>player_activity := map (touch_activity now (toLowerCase p)) (player_activity db)\<rparr>)"
  using assms by (simp add: checkRateLimit_bun_def bun_row_undefined)

lemma store_abc_row:
  "find (\<lambda>a. pa_name a = toLowerCase ''abc'') (player_activity store_abc) =
     Some \<lparr>pa_name = ''abc'', last_submission = 1000, submission_count = 1, first_seen = 1000,
           session_id = ''k3j9x''\<rparr>"
  by code_simp

lemma worker_rapid_fire_value:
  "checkRateLimit 2000 ''g'' store_abc ''abc'' None =
     (RateLimitCheck False (Some CooldownActive), store_abc)"
  by code_simp

lemma bun_rapid_fire_value:
  "checkRateLimit_bun 2000 ''g'' store_abc ''abc'' None =
     (RateLimitCheck True None,
      \<lparr>leaderboard = [\<lparr>name = ''abc'', score = 10, timestamp = 1001\<rparr>],
       player_activity = [\<lparr>pa_name = ''abc'', last_submission = 2000, submission_count = 2,
          first_seen = 1000, session_id = ''k3j9x''\<rparr>]\<rparr>)"
  by code_simp

text \<open>
  Claim C4 holds of the worker (\<open>checkRateLimit_existing\<close>) and fails on the Bun server.
  "abc" was last accepted at time 1000 and tries again at 2000, inside the cooldown. The
  worker denies and leaves the store as it was. The Bun server allows the attempt and
  rewrites the row, \<open>last_submission\<close> 2000 and \<open>submission_count\<close> 2, so that rapid
  attempts are not compared with the same last accepted timestamp.
\<close>

theorem checkRateLimit_bun_rapid_fire:
  "find (\<lambda>a. pa_name a = toLowerCase ''abc'') (player_activity store_abc) =
     Some \<lparr>pa_name = ''abc'', last_submission = 1000, submission_count = 1, first_seen = 1000,
           session_id = ''k3j9x''\<rparr> \<and>
   checkRateLimit 2000 ''g'' store_abc ''abc'' None =
     (RateLimitCheck False (Some CooldownActive), store_abc) \<and>
   checkRateLimit_bun 2000 ''g'' store_abc ''abc'' None =
     (RateLimitCheck True None,
      \<lparr>leaderboard = [\<lparr>name = ''abc'', score = 10, timestamp = 1001\<rparr>],
       player_activity = [\<lparr>pa_name = ''abc'', last_submission = 2000, submission_count = 2,
          first_seen = 1000, session_id = ''k3j9x''\<rparr>]\<rparr>)"
  using store_abc_row worker_rapid_fire_value bun_rapid_fire_value by (intro conjI)

section \<open>The session id as the request sends it, evaluated\<close>




lemma d1_bind_text_Inl:
  assumes "d1_bind_text scalar (if truthy h then h else JString g) = Inl e"
  shows "truthy h \<and> typeof h \<noteq> ''string'' \<and> d1_bind_text scalar h = Inl e"
  using assms by (cases h) (auto split: if_splits)

lemma checkRateLimitJson_existing:
  assumes "find (\<lambda>a. pa_name a = toLowerCase p) (player_activity db) = Some a"
  shows "checkRateLimitJson scalar now g db p h = Inr (checkRateLimit now g db p None)"
  using assms by (simp add: checkRateLimitJson_def checkRateLimit_def Let_def)

lemma checkRateLimitJson_Inl:
  assumes "checkRateLimitJson scalar now g db p h = Inl e"
  shows "find (\<lambda>a. pa_name a = toLowerCase p) (player_activity db) = None \<and>
         truthy h \<and> typeof h \<noteq> ''string'' \<and> d1_bind_text scalar h = Inl e"
proof (cases "find (\<lambda>a. pa_name a = toLowerCase p) (player_activity db)")
  case None
  have "d1_bind_text scalar (if truthy h then h else JString g) = Inl e"
  proof (cases "d1_bind_text scalar (if truthy h then h else JString g)")
    case (Inl e')
    then show ?thesis using assms None by (simp add: checkRateLimitJson_def)
  next
    case (Inr stored)
    then show ?thesis using assms None by (simp add: checkRateLimitJson_def)
  qed
  then show ?thesis using None d1_bind_text_Inl by blast
next
  case (Some a)
  then show ?thesis using assms checkRateLimitJson_existing [OF Some] by simp
qed



lemma submitScoreJson_gates:
  "\<not> name_ok nameV \<or> \<not> score_ok scoreV \<Longrightarrow>
   submitScoreJson scalar fx db nameV scoreV h = Inr (submitScore fx db nameV scoreV None)"
  by (auto simp: submitScoreJson_def submitScore_def name_ok_def score_ok_def)


text \<open>
  The only way to the exception: both gates passed, first contact, and a truthy session id
  that is not a string and that \<^verbatim>\<open>bind\<close> refuses.
\<close>

lemma submitScoreJson_Inl:
  assumes "submitScoreJson scalar fx db nameV scoreV h = Inl e"
  shows "name_ok nameV \<and> score_ok scoreV \<and>
         find (\<lambda>a. pa_name a = toLowerCase (trim (the_string nameV))) (player_activity db) = None \<and>
         truthy h \<and> typeof h \<noteq> ''string'' \<and> d1_bind_text scalar h = Inl e"
proof -
  have ok: "name_ok nameV" "score_ok scoreV"
    using assms submitScoreJson_gates [of nameV scoreV scalar fx db h] by auto
  have "checkRateLimitJson scalar (rateLimitNow fx) (generatedSessionId fx) db
          (trim (the_string nameV)) h = Inl e"
  proof (cases "checkRateLimitJson scalar (rateLimitNow fx) (generatedSessionId fx) db
          (trim (the_string nameV)) h")
    case (Inl e')
    then show ?thesis using assms ok
      by (simp add: submitScoreJson_def name_ok_def score_ok_def)
  next
    case (Inr x)
    then show ?thesis using assms ok
      by (cases x) (simp add: submitScoreJson_def name_ok_def score_ok_def Let_def split: if_splits)
  qed
  then show ?thesis using ok checkRateLimitJson_Inl by blast
qed









end
